theory Spec2Isabelle
  imports Complex_Main "HOL-Library.Sublist"
begin

section \<open>ExpenseFlow: the rule-based expense parser and the receipt interpreter\<close>

text \<open>
  The development embeds the two modules of the repository that turn text into expenses:
  the rule-based parser (\<open>extractAmounts\<close>, \<open>detectCategory\<close>, \<open>extractDescription\<close>,
  \<open>parseExpenses\<close>) and the receipt interpreter (\<open>parseMoney\<close>, \<open>extractMoneyValues\<close>,
  \<open>findTotalAmount\<close>, \<open>findReceiptDate\<close>, \<open>findMerchant\<close>, \<open>pickCategoryFromMerchant\<close>
  and the assembly at the end of \<open>parseReceiptImage\<close>).

  Modelling conventions.
  \<^item> A source string is a \<open>string\<close>: a list of 8-bit characters, read as the code units
    U+0000 to U+00FF. Inputs with code units beyond that range are outside the model.
  \<^item> A source number that counts something is a \<open>nat\<close>; an amount or a confidence is a
    \<open>rat\<close>, the exact decimal value the source's double approximates. The comparisons
    of the source come out the same on both: rounding to the nearest double is
    monotone, 0 and 100000 are doubles, and the confidences the source computes
    (0.4, 0.55, 0.6, 0.65, ..., 0.95) are the doubles nearest to these decimals.
  \<^item> A function of the source that can fail to return a value (an exception, or a loop
    that does not end) returns an \<open>option\<close>, \<open>None\<close> standing for "no value returned".
    The greatest number of arguments the engine accepts in one call, which decides
    whether \<open>Math.max(...allValues)\<close> raises, is a parameter \<open>argLimit\<close>.
  \<^item> Regular expressions are values of the datatype \<open>regex\<close>, run by the backtracking
    matcher \<open>rx\<close>, which lists the successful matches in the order in which the
    backtracking search of the language finds them.
\<close>

subsection \<open>Characters\<close>

definition code :: "char \<Rightarrow> nat" where
  "code c = of_char c"

definition isDigit :: "char \<Rightarrow> bool" where
  "isDigit c = (48 \<le> code c \<and> code c \<le> 57)"

text \<open>White space and line terminators below U+0100: what \<open>\s\<close> matches and \<open>trim\<close> strips.\<close>

definition isSpace :: "char \<Rightarrow> bool" where
  "isSpace c = (code c \<in> {9, 10, 11, 12, 13, 32, 160})"

definition isUpperAZ :: "char \<Rightarrow> bool" where
  "isUpperAZ c = (65 \<le> code c \<and> code c \<le> 90)"

definition isLowerAZ :: "char \<Rightarrow> bool" where
  "isLowerAZ c = (97 \<le> code c \<and> code c \<le> 122)"

definition isLetter :: "char \<Rightarrow> bool" where
  "isLetter c = (isUpperAZ c \<or> isLowerAZ c)"

text \<open>The class \<open>\w\<close>, which decides the word boundary \<open>\b\<close>.\<close>

definition isWordChar :: "char \<Rightarrow> bool" where
  "isWordChar c = (isDigit c \<or> isLetter c \<or> code c = 95)"

text \<open>
  \<open>toLowerCase\<close> on one character: A-Z, and the capital letters of U+00C0 to U+00DE
  (all but the multiplication sign U+00D7), move 32 places up.
\<close>

definition lowerChar :: "char \<Rightarrow> char" where
  "lowerChar c =
     (if isUpperAZ c \<or> (192 \<le> code c \<and> code c \<le> 222 \<and> code c \<noteq> 215)
      then char_of (code c + 32) else c)"

definition toLowerCase :: "string \<Rightarrow> string" where
  "toLowerCase s = map lowerChar s"

text \<open>
  \<open>toUpperCase\<close> on one character gives a string: the sharp s (U+00DF) becomes \<open>SS\<close>.
  The capitals of U+00FF and U+00B5 lie beyond U+00FF; the model leaves these two
  characters as they are.
\<close>

definition upperChar :: "char \<Rightarrow> string" where
  "upperChar c =
     (if isLowerAZ c \<or> (224 \<le> code c \<and> code c \<le> 254 \<and> code c \<noteq> 247)
      then [char_of (code c - 32)]
      else if code c = 223 then ''SS'' else [c])"

text \<open>
  The canonical form that a regular expression with the flag \<open>i\<close> compares: the capital
  of the character when that is one code unit.
\<close>

definition canonicalize :: "bool \<Rightarrow> char \<Rightarrow> char" where
  "canonicalize ic c =
     (if ic \<and> (isLowerAZ c \<or> (224 \<le> code c \<and> code c \<le> 254 \<and> code c \<noteq> 247))
      then char_of (code c - 32) else c)"

subsection \<open>String operations of the language\<close>

definition trim :: "string \<Rightarrow> string" where
  "trim s = rev (dropWhile isSpace (rev (dropWhile isSpace s)))"

text \<open>\<open>s.includes(k)\<close>: \<open>k\<close> occurs in \<open>s\<close> as a contiguous piece.\<close>

fun str_includes :: "string \<Rightarrow> string \<Rightarrow> bool" where
  "str_includes [] k = (k = [])"
| "str_includes (c # cs) k = (prefix k (c # cs) \<or> str_includes cs k)"

definition substring :: "string \<Rightarrow> nat \<Rightarrow> nat \<Rightarrow> string" where
  "substring s a b = take (b - a) (drop a s)"

text \<open>\<open>xs.slice(-n)\<close>: the last \<open>n\<close> elements.\<close>

definition sliceLast :: "nat \<Rightarrow> 'a list \<Rightarrow> 'a list" where
  "sliceLast n xs = drop (length xs - n) xs"

fun join :: "string \<Rightarrow> string list \<Rightarrow> string" where
  "join sep [] = []"
| "join sep [x] = x"
| "join sep (x # y # ys) = x @ sep @ join sep (y # ys)"

text \<open>
  The number a run of decimal digits denotes, in any numeric type: \<open>rat\<close> for an amount,
  \<open>int\<close> for a component of a date.
\<close>

definition digitsVal :: "string \<Rightarrow> 'a::semiring_1" where
  "digitsVal ds = foldl (\<lambda>a c. 10 * a + of_nat (code c - 48)) 0 ds"

text \<open>
  \<open>parseFloat\<close> on the strings its callers pass, which consist of digits and dots: the
  longest prefix \<open>digits\<close>, \<open>digits.digits\<close> or \<open>.digits\<close> is read as a decimal;
  \<open>None\<close> is \<open>NaN\<close>. Signs, exponents and leading white space do not occur there.
\<close>

definition parseFloat :: "string \<Rightarrow> rat option" where
  "parseFloat s =
     (let ip = takeWhile isDigit s;
          r = dropWhile isDigit s;
          fp = (case r of [] \<Rightarrow> [] | c # r' \<Rightarrow> if c = CHR ''.'' then takeWhile isDigit r' else [])
      in if ip = [] \<and> fp = [] then None
         else Some (digitsVal ip + digitsVal fp / 10 ^ length fp))"

text \<open>\<open>parseInt(s, 10)\<close> on the digit groups its callers pass; \<open>None\<close> is \<open>NaN\<close>.\<close>

definition parseInt :: "string \<Rightarrow> int option" where
  "parseInt s = (let ds = takeWhile isDigit s in if ds = [] then None else Some (digitsVal ds))"

subsection \<open>Regular expressions\<close>

datatype regex =
    Eps
  | Lit char
  | Cls "char \<Rightarrow> bool"
  | Seq regex regex
  | Alt regex regex
  | Star regex
  | LazyStar regex
  | Group nat regex
  | Look regex
  | Bol
  | Eol
  | WordB

text \<open>A match state: the position reached and the groups captured so far, newest first.\<close>

type_synonym captures = "(nat \<times> string) list"
type_synonym rxstate = "nat \<times> captures"

definition wordAt :: "string \<Rightarrow> nat \<Rightarrow> bool" where
  "wordAt t i = (i < length t \<and> isWordChar (t ! i))"

text \<open>
  \<open>rx ic r t s\<close> lists the states in which \<open>r\<close> can end when started in state \<open>s\<close> on the
  text \<open>t\<close>, in the order of the backtracking search: the head of the list is the match
  the language reports. \<open>ic\<close> is the flag \<open>i\<close>. An iteration of a star that does not
  advance is rejected, as the language does (the bound \<open>fst s' \<le> length t\<close> beside it
  always holds and makes the termination plain); no group of the patterns below
  stands under a star, so captures need no reset. \<open>Bol\<close> and \<open>Eol\<close> are \<open>^\<close> and \<open>$\<close> without
  the flag \<open>m\<close>. The classes used under the flag \<open>i\<close> contain no letters.
\<close>

function rx :: "bool \<Rightarrow> regex \<Rightarrow> string \<Rightarrow> rxstate \<Rightarrow> rxstate list" where
  "rx ic Eps t s = [s]"
| "rx ic (Lit a) t s =
     (if fst s < length t \<and> canonicalize ic (t ! fst s) = canonicalize ic a
      then [(Suc (fst s), snd s)] else [])"
| "rx ic (Cls p) t s =
     (if fst s < length t \<and> p (t ! fst s) then [(Suc (fst s), snd s)] else [])"
| "rx ic (Seq r1 r2) t s = concat (map (rx ic r2 t) (rx ic r1 t s))"
| "rx ic (Alt r1 r2) t s = rx ic r1 t s @ rx ic r2 t s"
| "rx ic (Star r) t s =
     concat (map (\<lambda>s'. if fst s < fst s' \<and> fst s' \<le> length t then rx ic (Star r) t s' else [])
                 (rx ic r t s)) @ [s]"
| "rx ic (LazyStar r) t s =
     s # concat (map (\<lambda>s'. if fst s < fst s' \<and> fst s' \<le> length t
                            then rx ic (LazyStar r) t s' else [])
                     (rx ic r t s))"
| "rx ic (Group n r) t s =
     map (\<lambda>s'. (fst s', (n, substring t (fst s) (fst s')) # snd s')) (rx ic r t s)"
| "rx ic (Look r) t s = (case rx ic r t s of [] \<Rightarrow> [] | s' # _ \<Rightarrow> [(fst s, snd s')])"
| "rx ic Bol t s = (if fst s = 0 then [s] else [])"
| "rx ic Eol t s = (if fst s = length t then [s] else [])"
| "rx ic WordB t s =
     (if (0 < fst s \<and> wordAt t (fst s - 1)) \<noteq> wordAt t (fst s) then [s] else [])"
  by pat_completeness auto
termination
  by (relation "measures [\<lambda>(ic, r, t, s). size r, \<lambda>(ic, r, t, s). length t - fst s]") auto

text \<open>Derived forms: \<open>r+\<close>, \<open>r+?\<close>, \<open>r?\<close>, \<open>r{n}\<close>, \<open>r{n,m}\<close>, \<open>r{n,}\<close> and a literal word.\<close>

definition Plus :: "regex \<Rightarrow> regex" where
  "Plus r = Seq r (Star r)"

definition LazyPlus :: "regex \<Rightarrow> regex" where
  "LazyPlus r = Seq r (LazyStar r)"

definition Opt :: "regex \<Rightarrow> regex" where
  "Opt r = Alt r Eps"

fun Times :: "nat \<Rightarrow> regex \<Rightarrow> regex" where
  "Times 0 r = Eps"
| "Times (Suc n) r = Seq r (Times n r)"

fun UpTo :: "nat \<Rightarrow> regex \<Rightarrow> regex" where
  "UpTo 0 r = Eps"
| "UpTo (Suc n) r = Opt (Seq r (UpTo n r))"

definition Rep :: "nat \<Rightarrow> nat \<Rightarrow> regex \<Rightarrow> regex" where
  "Rep n m r = Seq (Times n r) (UpTo (m - n) r)"

definition AtLeast :: "nat \<Rightarrow> regex \<Rightarrow> regex" where
  "AtLeast n r = Seq (Times n r) (Star r)"

fun Word :: "string \<Rightarrow> regex" where
  "Word [] = Eps"
| "Word (c # cs) = Seq (Lit c) (Word cs)"

fun Seqs :: "regex list \<Rightarrow> regex" where
  "Seqs [] = Eps"
| "Seqs [r] = r"
| "Seqs (r # rs) = Seq r (Seqs rs)"

fun Alts :: "regex list \<Rightarrow> regex" where
  "Alts [] = Eps"
| "Alts [r] = r"
| "Alts (r # rs) = Alt r (Alts rs)"

text \<open>A regular expression object: its source and its flag \<open>i\<close>.\<close>

record pattern =
  source :: regex
  ignoreCase :: bool

text \<open>A successful match: where it starts and ends, and its groups.\<close>

record rmatch =
  mstart :: nat
  mend :: nat
  groups :: captures

definition matched :: "string \<Rightarrow> rmatch \<Rightarrow> string" where
  "matched t m = substring t (mstart m) (mend m)"

text \<open>\<open>m[n]\<close>: the text of group \<open>n\<close>, \<open>None\<close> when the group took no part in the match.\<close>

definition group :: "rmatch \<Rightarrow> nat \<Rightarrow> string option" where
  "group m n = map_of (groups m) n"

definition matchAt :: "pattern \<Rightarrow> string \<Rightarrow> nat \<Rightarrow> rmatch option" where
  "matchAt p t i =
     (case rx (ignoreCase p) (source p) t (i, []) of
        [] \<Rightarrow> None
      | s # _ \<Rightarrow> Some \<lparr>mstart = i, mend = fst s, groups = snd s\<rparr>)"

text \<open>
  The search of \<open>exec\<close>: the match at the leftmost position from \<open>i\<close> on, the end of the
  text included.
\<close>

function search :: "pattern \<Rightarrow> string \<Rightarrow> nat \<Rightarrow> rmatch option" where
  "search p t i =
     (if length t < i then None
      else case matchAt p t i of Some m \<Rightarrow> Some m | None \<Rightarrow> search p t (Suc i))"
  by pat_completeness auto
termination
  by (relation "measure (\<lambda>(p, t, i). Suc (length t) - i)") auto

text \<open>
  A syntactic check: every match of such an expression takes at least one character.
\<close>

fun nonEmpty :: "regex \<Rightarrow> bool" where
  "nonEmpty (Lit a) = True"
| "nonEmpty (Cls p) = True"
| "nonEmpty (Seq r1 r2) = (nonEmpty r1 \<or> nonEmpty r2)"
| "nonEmpty (Alt r1 r2) = (nonEmpty r1 \<and> nonEmpty r2)"
| "nonEmpty (Group n r) = nonEmpty r"
| "nonEmpty r = False"

text \<open>
  A match never ends before it starts. The loops of the string methods below end
  because of this; the facts are proved here since their termination proofs use them.
\<close>

declare rx.simps(6,7) [simp del]

lemma rx_advance: "s' \<in> set (rx ic r t s) \<Longrightarrow> fst s \<le> fst s'"
proof (induction ic r t s arbitrary: s' rule: rx.induct)
  case (4 ic r1 r2 t s)
  from "4.prems" obtain x where x: "x \<in> set (rx ic r1 t s)" "s' \<in> set (rx ic r2 t x)"
    by auto
  from "4.IH"(1)[OF x(1)] "4.IH"(2)[OF x] show ?case by simp
next
  case (5 ic r1 r2 t s)
  from "5.prems" "5.IH"(1)[of s'] "5.IH"(2)[of s'] show ?case by auto
next
  case (6 ic r t s)
  from "6.prems" consider "s' = s"
    | x where "x \<in> set (rx ic r t s)" "fst s < fst x" "fst x \<le> length t"
        "s' \<in> set (rx ic (Star r) t x)"
    unfolding rx.simps(6)[of ic r t s] by (auto split: if_splits)
  then show ?case
  proof cases
    case 1
    then show ?thesis by simp
  next
    case 2
    from "6.IH"(2)[OF 2(1) _ 2(4)] 2(2,3) show ?thesis by simp
  qed
next
  case (7 ic r t s)
  from "7.prems" consider "s' = s"
    | x where "x \<in> set (rx ic r t s)" "fst s < fst x" "fst x \<le> length t"
        "s' \<in> set (rx ic (LazyStar r) t x)"
    unfolding rx.simps(7)[of ic r t s] by (auto split: if_splits)
  then show ?case
  proof cases
    case 1
    then show ?thesis by simp
  next
    case 2
    from "7.IH"(2)[OF 2(1) _ 2(4)] 2(2,3) show ?thesis by simp
  qed
next
  case (8 ic n r t s)
  from "8.prems" obtain x where "x \<in> set (rx ic r t s)" "fst s' = fst x" by auto
  with "8.IH"[of x] show ?case by simp
next
  case (9 ic r t s)
  from "9.prems" show ?case by (auto split: list.splits)
qed (auto split: if_splits)

lemma matchAt_bounds:
  assumes "matchAt p t i = Some m"
  shows "mstart m = i \<and> i \<le> mend m"
proof -
  from assms obtain s ss where s: "rx (ignoreCase p) (source p) t (i, []) = s # ss"
     and m: "m = \<lparr>mstart = i, mend = fst s, groups = snd s\<rparr>"
    by (auto simp: matchAt_def split: list.splits)
  from s have "s \<in> set (rx (ignoreCase p) (source p) t (i, []))" by simp
  from rx_advance[OF this] m show ?thesis by simp
qed

lemma search_bounds:
  "search p t i = Some m \<Longrightarrow> i \<le> mstart m \<and> mstart m \<le> length t \<and> mstart m \<le> mend m"
proof (induction p t i rule: search.induct)
  case (1 p t i)
  from "1.prems" have le: "i \<le> length t" by (auto split: if_splits)
  show ?case
  proof (cases "matchAt p t i")
    case None
    with le "1.prems" have "search p t (Suc i) = Some m" by simp
    with "1.IH"[OF _ None] le show ?thesis by auto
  next
    case (Some m')
    with le "1.prems" have "m' = m" by simp
    with Some matchAt_bounds[of p t i m] le show ?thesis by auto
  qed
qed

declare search.simps [simp del]

subsection \<open>String methods that take a regular expression\<close>

text \<open>\<open>re.test(s)\<close> and \<open>s.match(re)\<close> for a pattern without the flag \<open>g\<close>.\<close>

definition test :: "pattern \<Rightarrow> string \<Rightarrow> bool" where
  "test p t = (search p t 0 \<noteq> None)"

definition matchFirst :: "pattern \<Rightarrow> string \<Rightarrow> rmatch option" where
  "matchFirst p t = search p t 0"

text \<open>
  The matches that \<open>s.match(re)\<close> and \<open>s.replace(re, ...)\<close> collect for a pattern with
  the flag \<open>g\<close>: \<open>exec\<close> again and again, stepping one place on after an empty match.
\<close>

function globalMatches :: "pattern \<Rightarrow> string \<Rightarrow> nat \<Rightarrow> rmatch list" where
  "globalMatches p t i =
     (case search p t i of
        None \<Rightarrow> []
      | Some m \<Rightarrow> m # globalMatches p t (if mend m = mstart m then Suc (mend m) else mend m))"
  by pat_completeness auto
termination
proof (relation "measure (\<lambda>(p, t, i). Suc (length t) - i)")
  show "wf (measure (\<lambda>(p, t, i). Suc (length t) - i))" by simp
next
  fix p t i m
  assume "search p t i = Some m"
  from search_bounds[OF this]
  show "((p, t, if mend m = mstart m then Suc (mend m) else mend m), (p, t, i))
          \<in> measure (\<lambda>(p, t, i). Suc (length t) - i)"
    by auto
qed

declare globalMatches.simps [simp del]

text \<open>\<open>s.match(re) || []\<close> for a pattern with the flag \<open>g\<close>: the matched texts.\<close>

definition matchGlobal :: "pattern \<Rightarrow> string \<Rightarrow> string list" where
  "matchGlobal p t = map (matched t) (globalMatches p t 0)"

text \<open>
  \<open>s.replace(re, new)\<close> where \<open>new\<close> has no \<open>$\<close>: the text between the matches is
  kept, each match gives \<open>new\<close>. A pattern without the flag \<open>g\<close> replaces its first
  match only.
\<close>

fun replaceMatches :: "string \<Rightarrow> string \<Rightarrow> nat \<Rightarrow> rmatch list \<Rightarrow> string" where
  "replaceMatches t new nextSourcePosition [] = drop nextSourcePosition t"
| "replaceMatches t new nextSourcePosition (m # ms) =
     (if nextSourcePosition \<le> mstart m
      then substring t nextSourcePosition (mstart m) @ new @ replaceMatches t new (mend m) ms
      else replaceMatches t new nextSourcePosition ms)"

definition replaceGlobal :: "pattern \<Rightarrow> string \<Rightarrow> string \<Rightarrow> string" where
  "replaceGlobal p t new = replaceMatches t new 0 (globalMatches p t 0)"

definition replaceFirst :: "pattern \<Rightarrow> string \<Rightarrow> string \<Rightarrow> string" where
  "replaceFirst p t new =
     (case search p t 0 of None \<Rightarrow> t | Some m \<Rightarrow> replaceMatches t new 0 [m])"

text \<open>
  \<open>s.split(re)\<close> for a pattern without groups. \<open>p\<close> is the end of the last separator,
  \<open>q\<close> the place where the pattern is tried next; a separator that ends at \<open>p\<close> is
  passed over.
\<close>

function splitLoop :: "pattern \<Rightarrow> string \<Rightarrow> nat \<Rightarrow> nat \<Rightarrow> string list" where
  "splitLoop sep t p q =
     (if q < length t then
        (case matchAt sep t q of
           None \<Rightarrow> splitLoop sep t p (Suc q)
         | Some m \<Rightarrow>
             (let e = min (mend m) (length t) in
              if e = p then splitLoop sep t p (Suc q)
              else substring t p q # splitLoop sep t e e))
      else [substring t p (length t)])"
  by pat_completeness auto
termination
proof (relation "measures [\<lambda>(sep, t, p, q). length t - q, \<lambda>(sep, t, p, q). if p = q then 0 else 1]")
  show "wf (measures [\<lambda>(sep, t, p, q). length t - q, \<lambda>(sep, t, p, q). if p = q then 0 else 1])" by simp
next
  fix sep t p q
  assume "q < length t"
  then show "((sep, t, p, Suc q), (sep, t, p, q))
          \<in> measures [\<lambda>(sep, t, p, q). length t - q, \<lambda>(sep, t, p, q). if p = q then 0 else 1]"
    by auto
next
  fix sep t p q m e
  assume "q < length t" "e = min (mend m) (length t)"
  then show "((sep, t, p, Suc q), (sep, t, p, q))
          \<in> measures [\<lambda>(sep, t, p, q). length t - q, \<lambda>(sep, t, p, q). if p = q then 0 else 1]"
    by auto
next
  fix sep t p q m e
  assume a: "q < length t" "matchAt sep t q = Some m" "e = min (mend m) (length t)" "e \<noteq> p"
  from matchAt_bounds[OF a(2)] a(1,3) have "q \<le> e" "e \<le> length t" by simp_all
  with a show "((sep, t, e, e), (sep, t, p, q))
          \<in> measures [\<lambda>(sep, t, p, q). length t - q, \<lambda>(sep, t, p, q). if p = q then 0 else 1]"
    by auto
qed

declare splitLoop.simps [simp del]

text \<open>On the empty string the result is empty when the pattern matches it, else the string.\<close>

definition str_split :: "pattern \<Rightarrow> string \<Rightarrow> string list" where
  "str_split sep t =
     (if t = [] then (case matchAt sep t 0 of None \<Rightarrow> [t] | Some m \<Rightarrow> [])
      else splitLoop sep t 0 0)"

subsection \<open>The amount extractor\<close>

text \<open>The numeral \<open>\d+(?:\.\d{2})?\<close> shared by the three amount patterns.\<close>

definition numeral :: regex where
  "numeral = Seq (Plus (Cls isDigit)) (Opt (Seq (Lit CHR ''.'') (Times 2 (Cls isDigit))))"

text \<open>
  \<open>AMOUNT_PATTERNS\<close>, in the order of the source:
  \<^verbatim>\<open>/\$(\d+(?:\.\d{2})?)/g\<close>,
  \<^verbatim>\<open>/(\d+(?:\.\d{2})?)\s*dollars?/gi\<close>,
  \<^verbatim>\<open>/(\d+(?:\.\d{2})?)\s*(?:USD|usd)/g\<close>.
\<close>

definition AMOUNT_PATTERNS :: "pattern list" where
  "AMOUNT_PATTERNS =
     [\<lparr>source = Seq (Lit CHR ''$'') (Group 1 numeral), ignoreCase = False\<rparr>,
      \<lparr>source = Seqs [Group 1 numeral, Star (Cls isSpace), Word ''dollar'', Opt (Lit CHR ''s'')],
       ignoreCase = True\<rparr>,
      \<lparr>source = Seqs [Group 1 numeral, Star (Cls isSpace), Alt (Word ''USD'') (Word ''usd'')],
       ignoreCase = False\<rparr>]"

record candidate =
  amount :: rat
  index :: nat
  match :: string

text \<open>
  The inner loop \<^verbatim>\<open>while ((match = regex.exec(text)) !== null)\<close> for one pattern, from
  \<open>lastIndex\<close> on: \<open>exec\<close> searches from \<open>lastIndex\<close> and moves it to the end of the match.
  The loop ends only when \<open>exec\<close> finds nothing, so it is a partial function: \<open>None\<close>
  is a loop that never ends. An undefined group gives \<open>NaN\<close>, which fails the check.
\<close>

partial_function (option) execLoop ::
  "pattern \<Rightarrow> string \<Rightarrow> nat \<Rightarrow> candidate list \<Rightarrow> candidate list option" where
  [code]: "execLoop p text lastIndex results =
     (case search p text lastIndex of
        None \<Rightarrow> Some results
      | Some m \<Rightarrow>
          execLoop p text (mend m)
            (case Option.bind (group m 1) parseFloat of
               None \<Rightarrow> results
             | Some a \<Rightarrow>
                 if a > 0 \<and> a < 100000
                 then results @ [\<lparr>amount = a, index = mstart m, match = matched text m\<rparr>]
                 else results))"

text \<open>The outer loop \<^verbatim>\<open>for (const pattern of AMOUNT_PATTERNS)\<close>, each pattern from index 0.\<close>

fun forPatterns :: "pattern list \<Rightarrow> string \<Rightarrow> candidate list \<Rightarrow> candidate list option" where
  "forPatterns [] text results = Some results"
| "forPatterns (p # ps) text results =
     (case execLoop p text 0 results of
        None \<Rightarrow> None
      | Some results' \<Rightarrow> forPatterns ps text results')"

text \<open>The array \<open>results\<close> when both loops are done, in pattern-scan order.\<close>

definition collectAmounts :: "string \<Rightarrow> candidate list option" where
  "collectAmounts text = forPatterns AMOUNT_PATTERNS text []"

text \<open>
  \<^verbatim>\<open>.filter((item, index, arr) => index === 0 || item.index !== arr[index - 1].index)\<close>
\<close>

definition removeDuplicates :: "candidate list \<Rightarrow> candidate list" where
  "removeDuplicates arr =
     map (\<lambda>i. arr ! i)
       (filter (\<lambda>i. i = 0 \<or> index (arr ! i) \<noteq> index (arr ! (i - 1))) [0..<length arr])"

text \<open>
  \<^verbatim>\<open>results.sort((a, b) => a.index - b.index)\<close> is a stable sort on the offset, as
  \<open>sort_key\<close> is.
\<close>

definition extractAmounts :: "string \<Rightarrow> candidate list option" where
  "extractAmounts text =
     (case collectAmounts text of
        None \<Rightarrow> None
      | Some results \<Rightarrow> Some (removeDuplicates (sort_key index results)))"

subsection \<open>The category classifier\<close>

datatype category =
  Food | Transport | Shopping | Entertainment | Utilities | Health | Travel | Other

text \<open>\<open>Object.entries(CATEGORY_KEYWORDS)\<close>: the table in insertion order.\<close>

definition CATEGORY_KEYWORDS :: "(category \<times> string list) list" where
  "CATEGORY_KEYWORDS =
     [(Food, [''lunch'', ''dinner'', ''breakfast'', ''coffee'', ''food'', ''restaurant'', ''meal'',
              ''snack'', ''pizza'', ''burger'', ''groceries'', ''grocery'', ''eat'', ''eating'']),
      (Transport, [''uber'', ''lyft'', ''taxi'', ''fuel'', ''gas'', ''petrol'', ''parking'', ''bus'',
              ''train'', ''metro'', ''subway'', ''transport'', ''toll'']),
      (Shopping, [''amazon'', ''shopping'', ''clothes'', ''shoes'', ''store'', ''mall'', ''bought'',
              ''purchase'']),
      (Entertainment, [''movie'', ''netflix'', ''spotify'', ''concert'', ''game'', ''theater'',
              ''entertainment'', ''music'', ''streaming'']),
      (Utilities, [''electricity'', ''water'', ''internet'', ''phone'', ''bill'', ''utility'',
              ''utilities'', ''rent'', ''insurance'']),
      (Health, [''doctor'', ''medicine'', ''pharmacy'', ''hospital'', ''health'', ''gym'',
              ''fitness'', ''medical'', ''dentist'']),
      (Travel, [''flight'', ''hotel'', ''airbnb'', ''vacation'', ''trip'', ''travel'', ''booking'']),
      (Other, [])]"

text \<open>
  The inner loop: \<^verbatim>\<open>if (lowerText.includes(keyword)) score += keyword.length\<close>, from
  \<open>score = 0\<close>.
\<close>

definition keywordScore :: "string \<Rightarrow> string list \<Rightarrow> nat" where
  "keywordScore lowerText keywords =
     foldl (\<lambda>score keyword. if str_includes lowerText keyword then score + length keyword else score)
       0 keywords"

text \<open>
  One round of the outer loop on the state \<open>(bestMatch, highestScore)\<close>; the entry
  \<open>other\<close> is passed over by \<^verbatim>\<open>continue\<close>.
\<close>

definition categoryStep ::
  "string \<Rightarrow> category \<times> nat \<Rightarrow> category \<times> string list \<Rightarrow> category \<times> nat" where
  "categoryStep lowerText best entry =
     (if fst entry = Other then best
      else let score = keywordScore lowerText (snd entry)
           in if score > snd best then (fst entry, score) else best)"

text \<open>The result \<open>{ category, confidence }\<close> is the pair of the two.\<close>

definition detectCategory :: "string \<Rightarrow> category \<times> rat" where
  "detectCategory text =
     (let lowerText = toLowerCase text;
          best = foldl (categoryStep lowerText) (Other, 0) CATEGORY_KEYWORDS;
          highestScore = snd best;
          confidence = (if highestScore > 0
                        then min (95 / 100) (6 / 10 + of_nat highestScore * (5 / 100))
                        else 4 / 10)
      in (fst best, confidence))"

subsection \<open>The description extractor\<close>

text \<open>\<^verbatim>\<open>/(?:,|\band\b|\+|;)/i\<close>\<close>

definition delimiters :: pattern where
  "delimiters =
     \<lparr>source = Alts [Lit CHR '','', Seqs [WordB, Word ''and'', WordB], Lit CHR ''+'', Lit CHR '';''],
      ignoreCase = True\<rparr>"

text \<open>
  \<^verbatim>\<open>/^\s*(?:for|on|at)?\s*([^,;+]+?)(?=\s*(?:and|,|\+|$|\$|\d+\s*(?:dollars?|USD)))/i\<close>
\<close>

definition afterPattern :: pattern where
  "afterPattern =
     \<lparr>source = Seqs
        [Bol, Star (Cls isSpace), Opt (Alts [Word ''for'', Word ''on'', Word ''at'']),
         Star (Cls isSpace),
         Group 1 (LazyPlus (Cls (\<lambda>c. c \<notin> set '',;+''))),
         Look (Seq (Star (Cls isSpace))
                (Alts [Word ''and'', Lit CHR '','', Lit CHR ''+'', Eol, Lit CHR ''$'',
                       Seqs [Plus (Cls isDigit), Star (Cls isSpace),
                             Alt (Seq (Word ''dollar'') (Opt (Lit CHR ''s''))) (Word ''USD'')]]))],
      ignoreCase = True\<rparr>"

text \<open>\<^verbatim>\<open>/^\s*(?:spent|paid|for|on|at)\s*/i\<close> and \<^verbatim>\<open>/\s+/g\<close>\<close>

definition leadingFiller :: pattern where
  "leadingFiller =
     \<lparr>source = Seqs
        [Bol, Star (Cls isSpace),
         Alts [Word ''spent'', Word ''paid'', Word ''for'', Word ''on'', Word ''at''],
         Star (Cls isSpace)],
      ignoreCase = True\<rparr>"

definition whitespaceRun :: pattern where
  "whitespaceRun = \<lparr>source = Plus (Cls isSpace), ignoreCase = False\<rparr>"

text \<open>\<open>segment.charAt(0).toUpperCase() + segment.slice(1)\<close>\<close>

definition capitalize :: "string \<Rightarrow> string" where
  "capitalize segment = (case segment of [] \<Rightarrow> [] | c # cs \<Rightarrow> upperChar c @ cs)"

text \<open>
  The segment the extractor starts from: the first group of \<open>afterPattern\<close> on the text
  after the amount when it is not blank, else the last part of the text before the
  amount. Reading a group that took no part in the match, or the last element of an
  empty array, would raise a \<open>TypeError\<close>: these are the \<open>None\<close> branches.
\<close>

definition lastPart :: "string \<Rightarrow> string option" where
  "lastPart beforeAmount =
     (case str_split delimiters beforeAmount of
        [] \<Rightarrow> None
      | p # ps \<Rightarrow> Some (trim (last (p # ps))))"

definition firstSegment :: "string \<Rightarrow> string \<Rightarrow> string option" where
  "firstSegment beforeAmount afterAmount =
     (case matchFirst afterPattern afterAmount of
        None \<Rightarrow> lastPart beforeAmount
      | Some afterMatch \<Rightarrow>
          (case group afterMatch 1 of
             None \<Rightarrow> None
           | Some g \<Rightarrow> if trim g \<noteq> [] then Some (trim g) else lastPart beforeAmount))"

text \<open>
  The clean-up of the segment, and the fall-back on the first three words of the text
  without its dollar amounts when fewer than two characters are left.
\<close>

definition cleanSegment :: "string \<Rightarrow> string" where
  "cleanSegment segment =
     trim (replaceGlobal whitespaceRun (replaceFirst leadingFiller segment []) '' '')"

definition fallbackSegment :: "string \<Rightarrow> string" where
  "fallbackSegment text =
     (let fullContext = trim (replaceGlobal (AMOUNT_PATTERNS ! 0) text []);
          words = filter (\<lambda>w. length w > 2) (str_split whitespaceRun fullContext);
          joined = join '' '' (take 3 words)
      in if joined = [] then ''Expense'' else joined)"

text \<open>The parameter \<open>nextAmount\<close> of the source is never read.\<close>

definition extractDescription :: "string \<Rightarrow> candidate \<Rightarrow> candidate option \<Rightarrow> string option" where
  "extractDescription text amt nextAmount =
     (let beforeAmount = substring text 0 (index amt);
          afterAmount = drop (index amt + length (match amt)) text
      in case firstSegment beforeAmount afterAmount of
           None \<Rightarrow> None
         | Some segment0 \<Rightarrow>
             (let segment1 = cleanSegment segment0;
                  segment2 = (if segment1 = [] \<or> length segment1 < 2
                              then fallbackSegment text else segment1)
              in Some (capitalize segment2)))"

subsection \<open>The expense segmenter\<close>

text \<open>
  A parsed expense. The fields \<open>id\<close> and \<open>date\<close> of the source hold a random identifier
  and the time of the call; the model leaves the identifier out and keeps the date,
  which the receipt interpreter may read from the text: \<open>DateOf y m d\<close> stands for
  \<open>new Date(y, m, d)\<close>, \<open>CurrentTime\<close> for \<open>new Date()\<close>.
\<close>

datatype jsdate = DateOf int int int | CurrentTime

record ParsedExpense =
  amount :: rat
  description :: string
  category :: category
  confidence :: rat
  needsReview :: bool
  date :: jsdate

text \<open>A parsing result; \<open>processingTime\<close>, a reading of the clock, is left out.\<close>

record ParsingResult =
  success :: bool
  expenses :: "ParsedExpense list"
  rawInput :: string

text \<open>
  The body of \<^verbatim>\<open>amounts.map((amountInfo, index) => ...)\<close> for the element at \<open>i\<close>, and
  the map itself, which fails when one of its calls fails.
\<close>

definition toExpense :: "string \<Rightarrow> candidate list \<Rightarrow> nat \<Rightarrow> ParsedExpense option" where
  "toExpense trimmedInput amounts i =
     (let amountInfo = amounts ! i;
          nextAmount = (if Suc i < length amounts then Some (amounts ! Suc i) else None)
      in case extractDescription trimmedInput amountInfo nextAmount of
           None \<Rightarrow> None
         | Some descr \<Rightarrow>
             (let found = detectCategory descr
              in Some \<lparr>amount = candidate.amount amountInfo,
                        description = descr,
                        category = fst found,
                        confidence = snd found,
                        needsReview = (snd found < 7 / 10),
                        date = CurrentTime\<rparr>))"

fun mapOption :: "('a \<Rightarrow> 'b option) \<Rightarrow> 'a list \<Rightarrow> 'b list option" where
  "mapOption f [] = Some []"
| "mapOption f (x # xs) =
     (case f x of
        None \<Rightarrow> None
      | Some y \<Rightarrow> (case mapOption f xs of None \<Rightarrow> None | Some ys \<Rightarrow> Some (y # ys)))"

definition parseExpenses :: "string \<Rightarrow> ParsingResult option" where
  "parseExpenses input =
     (let trimmedInput = trim input in
      if trimmedInput = [] then Some \<lparr>success = False, expenses = [], rawInput = input\<rparr>
      else case extractAmounts trimmedInput of
             None \<Rightarrow> None
           | Some amounts \<Rightarrow>
               if length amounts = 0
               then Some \<lparr>success = False, expenses = [], rawInput = input\<rparr>
               else (case mapOption (toExpense trimmedInput amounts) [0..<length amounts] of
                       None \<Rightarrow> None
                     | Some es \<Rightarrow>
                         Some \<lparr>success = True, expenses = es, rawInput = input\<rparr>))"

subsection \<open>The receipt interpreter: the total locator\<close>

definition TOTAL_KEYWORDS :: "string list" where
  "TOTAL_KEYWORDS =
     [''total'', ''grand total'', ''amount due'', ''balance due'', ''total due'',
      ''amount received'', ''card payment'', ''net amount'', ''payable'', ''bill amount'',
      ''amount'']"

text \<open>\<^verbatim>\<open>/[^0-9.,]/g\<close> and \<^verbatim>\<open>/,/g\<close>\<close>

definition notMoneyChar :: pattern where
  "notMoneyChar =
     \<lparr>source = Cls (\<lambda>c. \<not> (isDigit c \<or> c = CHR ''.'' \<or> c = CHR '','')), ignoreCase = False\<rparr>"

definition comma :: pattern where
  "comma = \<lparr>source = Lit CHR '','', ignoreCase = False\<rparr>"

text \<open>\<open>null\<close> is \<open>None\<close>.\<close>

definition parseMoney :: "string \<Rightarrow> rat option" where
  "parseMoney v =
     (let cleaned = replaceGlobal comma (replaceGlobal notMoneyChar v []) []
      in parseFloat cleaned)"

text \<open>\<^verbatim>\<open>/\d{1,3}(?:,\d{3})*(?:\.\d{2})?/g\<close>\<close>

definition moneyPattern :: pattern where
  "moneyPattern =
     \<lparr>source = Seqs
        [Rep 1 3 (Cls isDigit),
         Star (Seq (Lit CHR '','') (Times 3 (Cls isDigit))),
         Opt (Seq (Lit CHR ''.'') (Times 2 (Cls isDigit)))],
      ignoreCase = False\<rparr>"

definition extractMoneyValues :: "string \<Rightarrow> rat list" where
  "extractMoneyValues text =
     (let matches = matchGlobal moneyPattern text
      in List.map_filter
           (\<lambda>m. case parseMoney m of None \<Rightarrow> None | Some a \<Rightarrow> if a > 0 then Some a else None)
           matches)"

text \<open>\<^verbatim>\<open>/\r?\n/\<close>, and \<^verbatim>\<open>text.split(/\r?\n/).map((line) => line.trim()).filter(Boolean)\<close>\<close>

definition lineBreak :: pattern where
  "lineBreak = \<lparr>source = Seq (Opt (Lit (CHR 0x0D))) (Lit (CHR 0x0A)), ignoreCase = False\<rparr>"

definition nonEmptyLines :: "string \<Rightarrow> string list" where
  "nonEmptyLines text = filter (\<lambda>line. line \<noteq> []) (map trim (str_split lineBreak text))"

text \<open>The filter of \<open>prioritized\<close>: a total keyword, and neither \<open>subtotal\<close> nor \<open>taxable\<close>.\<close>

definition isTotalLine :: "string \<Rightarrow> bool" where
  "isTotalLine line =
     (let lower = toLowerCase line in
      if \<not> list_ex (\<lambda>keyword. str_includes lower keyword) TOTAL_KEYWORDS then False
      else if str_includes lower ''subtotal'' then False
      else if str_includes lower ''taxable'' then False
      else True)"

text \<open>
  \<^verbatim>\<open>for (let i = xs.length - 1; i >= 0; i -= 1)\<close> with the body that returns the last
  money value of the line: \<open>scanUp xs n\<close> runs the loop from \<open>i = n - 1\<close> down and
  gives \<open>None\<close> when the loop ends without a \<^verbatim>\<open>return\<close>.
\<close>

fun scanUp :: "string list \<Rightarrow> nat \<Rightarrow> rat option" where
  "scanUp xs 0 = None"
| "scanUp xs (Suc i) =
     (let values = extractMoneyValues (xs ! i)
      in if length values > 0 then Some (values ! (length values - 1)) else scanUp xs i)"

text \<open>
  \<open>Math.max(...allValues)\<close> on a list that is not empty. The spread passes every
  element of the list as an argument of one call, and an engine raises a
  \<open>RangeError\<close> when a call has more arguments than it accepts: this is \<open>None\<close>.
  The greatest number of arguments is a constant of the engine, not of the program,
  and is the parameter \<open>argLimit\<close> here and in the callers.
\<close>

definition maxOf :: "nat \<Rightarrow> rat list \<Rightarrow> rat option" where
  "maxOf argLimit vs =
     (if argLimit < length vs then None else Some (foldl max (hd vs) (tl vs)))"

text \<open>
  The result \<open>{ amount, confidence }\<close> is the pair of the two; \<open>null\<close> is the inner
  \<open>None\<close>. The outer \<open>None\<close> is the \<open>RangeError\<close> of the last stage.
\<close>

definition findTotalAmount :: "nat \<Rightarrow> string \<Rightarrow> (rat option \<times> rat) option" where
  "findTotalAmount argLimit text =
     (let lines = nonEmptyLines text;
          prioritized = filter (\<lambda>(line, i). isTotalLine line) (zip lines [0..<length lines])
      in case scanUp (map fst prioritized) (length prioritized) of
           Some a \<Rightarrow> Some (Some a, 85 / 100)
         | None \<Rightarrow>
             (let bottomLines = sliceLast 10 lines
              in case scanUp bottomLines (length bottomLines) of
                   Some a \<Rightarrow> Some (Some a, 6 / 10)
                 | None \<Rightarrow>
                     (let allValues = extractMoneyValues text
                      in if length allValues = 0 then Some (None, 4 / 10)
                         else (case maxOf argLimit allValues of
                                 None \<Rightarrow> None
                               | Some v \<Rightarrow> Some (Some v, 55 / 100)))))"

subsection \<open>The receipt interpreter: the date locator\<close>

definition dateSeparator :: regex where
  "dateSeparator = Cls (\<lambda>c. c \<in> set ''/-.'')"

text \<open>
  \<^verbatim>\<open>/\b(\d{4})[\/\-\.](\d{1,2})[\/\-\.](\d{1,2})\b/\<close>,
  \<^verbatim>\<open>/\b(\d{1,2})[\/\-\.](\d{1,2})[\/\-\.](\d{2,4})\b/\<close> and
  \<^verbatim>\<open>/\b([A-Za-z]{3,9})\s+(\d{1,2}),?\s*(\d{2,4})\b/\<close>
\<close>

definition ymdPattern :: pattern where
  "ymdPattern =
     \<lparr>source = Seqs
        [WordB, Group 1 (Times 4 (Cls isDigit)), dateSeparator,
         Group 2 (Rep 1 2 (Cls isDigit)), dateSeparator,
         Group 3 (Rep 1 2 (Cls isDigit)), WordB],
      ignoreCase = False\<rparr>"

definition mdyPattern :: pattern where
  "mdyPattern =
     \<lparr>source = Seqs
        [WordB, Group 1 (Rep 1 2 (Cls isDigit)), dateSeparator,
         Group 2 (Rep 1 2 (Cls isDigit)), dateSeparator,
         Group 3 (Rep 2 4 (Cls isDigit)), WordB],
      ignoreCase = False\<rparr>"

definition monthNamePattern :: pattern where
  "monthNamePattern =
     \<lparr>source = Seqs
        [WordB, Group 1 (Rep 3 9 (Cls isLetter)), Plus (Cls isSpace),
         Group 2 (Rep 1 2 (Cls isDigit)), Opt (Lit CHR '',''), Star (Cls isSpace),
         Group 3 (Rep 2 4 (Cls isDigit)), WordB],
      ignoreCase = False\<rparr>"

definition monthNames :: "string list" where
  "monthNames =
     [''january'', ''february'', ''march'', ''april'', ''may'', ''june'',
      ''july'', ''august'', ''september'', ''october'', ''november'', ''december'']"

text \<open>\<open>parseInt(m[n], 10)\<close>: an undefined group gives \<open>NaN\<close>, as does a text without digits.\<close>

definition groupInt :: "rmatch \<Rightarrow> nat \<Rightarrow> int option" where
  "groupInt m n = (case group m n of None \<Rightarrow> None | Some g \<Rightarrow> parseInt g)"

text \<open>
  \<open>new Date(year, month, day)\<close> followed by the check of \<open>getTime()\<close> against \<open>NaN\<close>:
  the date is invalid when a component is \<open>NaN\<close>. For the components the patterns can
  give (at most four digits) the time value is never out of range, so this is the only
  way to fail the check.
\<close>

definition newDate :: "int option \<Rightarrow> int option \<Rightarrow> int option \<Rightarrow> jsdate option" where
  "newDate y m d =
     (case (y, m, d) of (Some y', Some m', Some d') \<Rightarrow> Some (DateOf y' m' d') | _ \<Rightarrow> None)"

text \<open>The year-first branch.\<close>

definition ymdDate :: "string \<Rightarrow> jsdate option" where
  "ymdDate normalized =
     (case matchFirst ymdPattern normalized of
        None \<Rightarrow> None
      | Some ymd \<Rightarrow>
          (let year = groupInt ymd 1;
               month = map_option (\<lambda>v. v - 1) (groupInt ymd 2);
               day = groupInt ymd 3
           in newDate year month day))"

text \<open>
  The month-first branch: the first group is read as the month and the second as the
  day; the two are exchanged \<^verbatim>\<open>if (day > 12 && month <= 12)\<close>. A comparison with
  \<open>NaN\<close> is false.
\<close>

definition swapDayMonth :: "int \<times> int \<Rightarrow> int \<times> int" where
  "swapDayMonth md = (let month = fst md; day = snd md in
     if day > 12 \<and> month \<le> 12 then (day, month) else (month, day))"

definition mdyDate :: "string \<Rightarrow> jsdate option" where
  "mdyDate normalized =
     (case matchFirst mdyPattern normalized of
        None \<Rightarrow> None
      | Some mdy \<Rightarrow>
          (case (groupInt mdy 1, groupInt mdy 2, groupInt mdy 3) of
             (Some month, Some day, Some year) \<Rightarrow>
               (let year' = (if year < 100 then year + 2000 else year);
                    md = swapDayMonth (month, day)
                in newDate (Some year') (Some (fst md - 1)) (Some (snd md)))
           | _ \<Rightarrow> None))"

text \<open>\<open>names.findIndex((name) => name.startsWith(s))\<close>; \<open>None\<close> is \<open>-1\<close>.\<close>

fun findIndexPrefix :: "string \<Rightarrow> string list \<Rightarrow> nat \<Rightarrow> nat option" where
  "findIndexPrefix s [] i = None"
| "findIndexPrefix s (name # names) i =
     (if prefix s name then Some i else findIndexPrefix s names (Suc i))"

text \<open>
  The month-name branch. Its outer \<open>None\<close> is the \<open>TypeError\<close> of calling
  \<open>toLowerCase\<close> on an undefined group; its inner \<open>None\<close> is "no date".
\<close>

definition monthNameDate :: "string \<Rightarrow> jsdate option option" where
  "monthNameDate normalized =
     (case matchFirst monthNamePattern normalized of
        None \<Rightarrow> Some None
      | Some monthName \<Rightarrow>
          (case group monthName 1 of
             None \<Rightarrow> None
           | Some g \<Rightarrow>
               (case findIndexPrefix (toLowerCase g) monthNames 0 of
                  None \<Rightarrow> Some None
                | Some monthIndex \<Rightarrow>
                    (let year = map_option (\<lambda>y. if y < 100 then y + 2000 else y)
                                  (groupInt monthName 3);
                         day = groupInt monthName 2
                     in Some (newDate year (Some (int monthIndex)) day)))))"

text \<open>The locator: the first branch that gives a valid date; \<open>null\<close> is \<open>Some None\<close>.\<close>

definition findReceiptDate :: "string \<Rightarrow> jsdate option option" where
  "findReceiptDate text =
     (let normalized = replaceGlobal whitespaceRun text '' '' in
      case ymdDate normalized of
        Some d \<Rightarrow> Some (Some d)
      | None \<Rightarrow>
          (case mdyDate normalized of
             Some d \<Rightarrow> Some (Some d)
           | None \<Rightarrow> monthNameDate normalized))"

subsection \<open>The receipt interpreter: the merchant locator\<close>

definition IGNORE_MERCHANT_LINES :: "string list" where
  "IGNORE_MERCHANT_LINES =
     [''thank you'', ''thanks'', ''receipt'', ''invoice'', ''total'', ''subtotal'', ''tax'', ''gst'',
      ''cgst'', ''sgst'', ''cess'', ''visa'', ''mastercard'', ''amex'', ''cash'', ''change'',
      ''balance'', ''due'', ''payment'', ''debit'', ''credit'', ''tip'', ''gratuity'', ''rounding'',
      ''discount'']"

text \<open>
  \<^verbatim>\<open>/[a-zA-Z]/\<close>, \<^verbatim>\<open>/\d+/g\<close>, \<^verbatim>\<open>/[^A-Za-z\s&.-]/g\<close> and \<^verbatim>\<open>/\s{2,}/g\<close>
\<close>

definition anyLetter :: pattern where
  "anyLetter = \<lparr>source = Cls isLetter, ignoreCase = False\<rparr>"

definition digitRun :: pattern where
  "digitRun = \<lparr>source = Plus (Cls isDigit), ignoreCase = False\<rparr>"

definition notNameChar :: pattern where
  "notNameChar =
     \<lparr>source = Cls (\<lambda>c. \<not> (isLetter c \<or> isSpace c \<or> c \<in> set ''&.-'')), ignoreCase = False\<rparr>"

definition wideSpace :: pattern where
  "wideSpace = \<lparr>source = AtLeast 2 (Cls isSpace), ignoreCase = False\<rparr>"

text \<open>One element of \<open>weighted\<close>: the cleaned line, or the line when nothing is left, and its score.\<close>

record weightedLine =
  line :: string
  score :: nat

definition weigh :: "string \<Rightarrow> weightedLine" where
  "weigh l =
     (let lower = toLowerCase l;
          normalized = trim (replaceGlobal notNameChar (replaceGlobal digitRun l []) []);
          score0 = length l;
          score1 = (if str_includes lower ''mart'' then score0 + 10 else score0);
          score2 = (if str_includes lower ''super'' then score1 + 8 else score1);
          score3 = (if str_includes lower ''store'' then score2 + 8 else score2);
          score4 = (if str_includes lower ''market'' then score3 + 6 else score3)
      in \<lparr>line = (if normalized \<noteq> [] then normalized else l), score = score4\<rparr>)"

text \<open>The three filters on the first eight lines.\<close>

definition merchantCandidates :: "string \<Rightarrow> string list" where
  "merchantCandidates text =
     (let head = take 8 (nonEmptyLines text)
      in filter (\<lambda>l. \<not> list_ex (\<lambda>ignore. str_includes (toLowerCase l) ignore)
                                 IGNORE_MERCHANT_LINES)
           (filter (\<lambda>l. test anyLetter l)
              (filter (\<lambda>l. length l \<ge> 3) head)))"

text \<open>
  \<^verbatim>\<open>.sort((a, b) => b.score - a.score)\<close> is a stable sort on the score, highest first.
  The outer \<open>None\<close> is the \<open>TypeError\<close> of reading \<open>weighted[0].line\<close> in an empty
  array; \<open>null\<close> is \<open>Some None\<close>.
\<close>

definition findMerchant :: "string \<Rightarrow> string option option" where
  "findMerchant text =
     (let candidates = merchantCandidates text in
      if length candidates = 0 then Some None
      else (let weighted = sort_key (\<lambda>w. - int (score w)) (map weigh candidates)
            in case weighted of
                 [] \<Rightarrow> None
               | w # ws \<Rightarrow> Some (Some (trim (replaceGlobal wideSpace (line w) '' '')))))"

definition normalizeDescription :: "string \<Rightarrow> string" where
  "normalizeDescription v =
     (let trimmed = trim v in if trimmed = [] then ''Receipt'' else capitalize trimmed)"

subsection \<open>The receipt interpreter: the category of a merchant\<close>

definition MERCHANT_CATEGORY_HINTS :: "(category \<times> string list) list" where
  "MERCHANT_CATEGORY_HINTS =
     [(Food, [''restaurant'', ''cafe'', ''coffee'', ''bakery'', ''pizza'', ''burger'', ''kitchen'',
              ''diner'', ''bar'', ''grill'', ''bistro'']),
      (Transport, [''gas'', ''fuel'', ''petrol'', ''station'', ''uber'', ''lyft'', ''taxi'', ''parking'']),
      (Shopping, [''walmart'', ''target'', ''costco'', ''ikea'', ''best buy'', ''amazon'', ''mall'',
              ''mart'', ''store'', ''shop'', ''market'']),
      (Entertainment, [''cinema'', ''theatre'', ''theater'', ''netflix'', ''spotify'', ''arcade'']),
      (Utilities, [''utility'', ''electric'', ''power'', ''water'', ''internet'', ''telecom'']),
      (Health, [''pharmacy'', ''clinic'', ''hospital'', ''health'', ''dental'', ''optical'']),
      (Travel, [''airlines'', ''hotel'', ''resort'', ''airbnb'', ''motel'', ''inn'']),
      (Other, [])]"

text \<open>One round of the loop on \<open>(best, score)\<close>; here the entry \<open>other\<close> is not passed over.\<close>

definition hintStep ::
  "string \<Rightarrow> category \<times> nat \<Rightarrow> category \<times> string list \<Rightarrow> category \<times> nat" where
  "hintStep lower best entry =
     (let localScore = keywordScore lower (snd entry)
      in if localScore > snd best then (fst entry, localScore) else best)"

text \<open>\<open>!merchant\<close> holds for \<open>null\<close> and for the empty string.\<close>

definition pickCategoryFromMerchant :: "string option \<Rightarrow> category \<times> rat" where
  "pickCategoryFromMerchant merchant =
     (case merchant of
        None \<Rightarrow> (Other, 4 / 10)
      | Some m \<Rightarrow>
          if m = [] then (Other, 4 / 10)
          else (let best = foldl (hintStep (toLowerCase m)) (Other, 0) MERCHANT_CATEGORY_HINTS
                in if fst best \<noteq> Other
                   then (fst best, min (9 / 10) (6 / 10 + of_nat (snd best) * (5 / 100)))
                   else detectCategory m))"

text \<open>\<open>parsedCategory || 'other'\<close>\<close>

definition pickCategory :: "category option \<Rightarrow> category" where
  "pickCategory parsedCategory = (case parsedCategory of None \<Rightarrow> Other | Some c \<Rightarrow> c)"

subsection \<open>The receipt interpreter: the assembly\<close>

text \<open>
  \<open>parseReceiptText\<close> is \<open>parseReceiptImage\<close> from the point where the recognised text is
  at hand (the text \<open>result.data.text || ''\<close> of the recogniser) to its \<open>return\<close>; the
  loading of the image and the recogniser are not part of the model. \<open>a || b\<close> on
  strings takes \<open>b\<close> when \<open>a\<close> is missing or empty; \<open>a ?? b\<close> when \<open>a\<close> is missing.
  The calls are made in the order of the source, and the first that raises ends the
  function: \<open>parseExpenses\<close>, \<open>findTotalAmount\<close>, \<open>findMerchant\<close>, \<open>findReceiptDate\<close>.
\<close>

definition orElse :: "string option \<Rightarrow> string option \<Rightarrow> string option" where
  "orElse a b = (case a of None \<Rightarrow> b | Some s \<Rightarrow> if s = [] then b else Some s)"

definition assemble ::
  "ParsedExpense option \<Rightarrow> rat option \<times> rat \<Rightarrow> string option \<Rightarrow> jsdate option \<Rightarrow> ParsedExpense"
  where
  "assemble ruleExpense located merchant found =
     (let keywordAmount = fst located;
          amountConfidence = snd located;
          date' = (case found of None \<Rightarrow> CurrentTime | Some d \<Rightarrow> d);
          amount' = (case keywordAmount of
                       Some a \<Rightarrow> a
                     | None \<Rightarrow> (case ruleExpense of Some e \<Rightarrow> amount e | None \<Rightarrow> 0));
          description' = normalizeDescription
             (case orElse (orElse merchant (map_option description ruleExpense)) (Some ''Receipt'') of
                Some s \<Rightarrow> s | None \<Rightarrow> ''Receipt'');
          merchantCategory = pickCategoryFromMerchant merchant;
          category' = (if fst merchantCategory \<noteq> Other then fst merchantCategory
                       else pickCategory (map_option category ruleExpense));
          confidence' = (if fst merchantCategory \<noteq> Other then snd merchantCategory
                         else (case ruleExpense of
                                 Some e \<Rightarrow> confidence e
                               | None \<Rightarrow> amountConfidence))
      in \<lparr>amount = amount',
           description = description',
           category = category',
           confidence = confidence',
           needsReview = True,
           date = date'\<rparr>)"

text \<open>The result \<open>{ text, expense }\<close> is the pair \<open>(text, expense)\<close>.\<close>

definition parseReceiptText :: "nat \<Rightarrow> string \<Rightarrow> (string \<times> ParsedExpense) option" where
  "parseReceiptText argLimit text =
     (case parseExpenses text of
        None \<Rightarrow> None
      | Some parsed \<Rightarrow>
          (let ruleExpense = (case expenses parsed of [] \<Rightarrow> None | e # es \<Rightarrow> Some e)
           in case findTotalAmount argLimit text of
                None \<Rightarrow> None
              | Some located \<Rightarrow>
                  (case findMerchant text of
                     None \<Rightarrow> None
                   | Some merchant \<Rightarrow>
                       (case findReceiptDate text of
                          None \<Rightarrow> None
                        | Some found \<Rightarrow>
                            Some (text, assemble ruleExpense located merchant found)))))"

subsection \<open>Auxiliary notions\<close>

text \<open>
  A syntactic check: every match of such an expression captures group \<open>n\<close>. It shows
  that the groups the source reads without a test are always defined.
\<close>

fun binds :: "nat \<Rightarrow> regex \<Rightarrow> bool" where
  "binds n (Group m r) = (n = m \<or> binds n r)"
| "binds n (Seq r1 r2) = (binds n r1 \<or> binds n r2)"
| "binds n (Alt r1 r2) = (binds n r1 \<and> binds n r2)"
| "binds n (Look r) = binds n r"
| "binds n r = False"

text \<open>
  What the body of the map in \<open>parseExpenses\<close> makes of a candidate: the amount is the
  candidate's, the category and the confidence are those of the description, and the
  flag is the comparison of the source.
\<close>

definition expenseOf :: "candidate \<Rightarrow> ParsedExpense \<Rightarrow> bool" where
  "expenseOf c e =
     (ParsedExpense.amount e = candidate.amount c
      \<and> category e = fst (detectCategory (description e))
      \<and> confidence e = snd (detectCategory (description e))
      \<and> needsReview e = (confidence e < 7 / 10))"

subsection \<open>The classifier as the specification words it\<close>

text \<open>
  The classifier in the words of the specification, to be compared with
  \<open>detectCategory\<close>: the score of a category is the sum of the lengths of its keywords
  that occur in the lower-cased text, each keyword once; among the categories other
  than \<open>other\<close> the first one in table order with the highest score wins.
\<close>

definition spec_score :: "string \<Rightarrow> string list \<Rightarrow> nat" where
  "spec_score lowerText keywords = (\<Sum>k \<in> {k \<in> set keywords. sublist k lowerText}. length k)"

definition spec_detectCategory :: "string \<Rightarrow> category \<times> rat" where
  "spec_detectCategory text =
     (let lowerText = toLowerCase text;
          table = filter (\<lambda>entry. fst entry \<noteq> Other) CATEGORY_KEYWORDS;
          scores = map (\<lambda>entry. (fst entry, spec_score lowerText (snd entry))) table;
          highest = Max (snd ` set scores)
      in if highest > 0
         then (fst (the (List.find (\<lambda>e. snd e = highest) scores)),
               min (95 / 100) (6 / 10 + of_nat highest * (5 / 100)))
         else (Other, 4 / 10))"

text \<open>The update of the loop state by a scored entry, used to describe the loop.\<close>

definition keepHigher :: "category \<times> nat \<Rightarrow> category \<times> nat \<Rightarrow> category \<times> nat" where
  "keepHigher best e = (if snd e > snd best then e else best)"

subsection \<open>The total locator as the specification words it\<close>

text \<open>
  The total locator in the words of the specification, to be compared with
  \<open>findTotalAmount\<close>. A total line is a trimmed non-empty line that contains a total
  keyword and neither \<open>subtotal\<close> nor \<open>taxable\<close>, all in lower case. Scanning a list of
  lines from the bottom gives the last money value of the first line that holds one.
\<close>

definition spec_isTotalLine :: "string \<Rightarrow> bool" where
  "spec_isTotalLine l =
     ((\<exists>k\<in>set TOTAL_KEYWORDS. sublist k (toLowerCase l))
      \<and> \<not> sublist ''subtotal'' (toLowerCase l) \<and> \<not> sublist ''taxable'' (toLowerCase l))"

definition spec_bottomUp :: "string list \<Rightarrow> rat option" where
  "spec_bottomUp ls =
     (case List.find (\<lambda>l. extractMoneyValues l \<noteq> []) (rev ls) of
        None \<Rightarrow> None
      | Some l \<Rightarrow> Some (last (extractMoneyValues l)))"

text \<open>
  The locator reaches its last stage, the maximum of the whole text, when neither
  the total lines nor the last ten lines hold a money value.
\<close>

definition reachesLastStage :: "string \<Rightarrow> bool" where
  "reachesLastStage text =
     (spec_bottomUp (filter spec_isTotalLine (nonEmptyLines text)) = None
      \<and> spec_bottomUp (rev (take 10 (rev (nonEmptyLines text)))) = None)"

definition spec_findTotalAmount :: "string \<Rightarrow> rat option \<times> rat" where
  "spec_findTotalAmount text =
     (case spec_bottomUp (filter spec_isTotalLine (nonEmptyLines text)) of
        Some a \<Rightarrow> (Some a, 85 / 100)
      | None \<Rightarrow>
          (case spec_bottomUp (rev (take 10 (rev (nonEmptyLines text)))) of
             Some a \<Rightarrow> (Some a, 6 / 10)
           | None \<Rightarrow>
               if extractMoneyValues text = [] then (None, 4 / 10)
               else (Some (Max (set (extractMoneyValues text))), 55 / 100)))"

section \<open>Properties\<close>

subsection \<open>The amount extractor\<close>

lemma rx_nonEmpty: "nonEmpty r \<Longrightarrow> s' \<in> set (rx ic r t s) \<Longrightarrow> fst s < fst s'"
proof (induction r arbitrary: s s')
  case (Seq r1 r2)
  from Seq.prems(2) obtain x where x: "x \<in> set (rx ic r1 t s)" "s' \<in> set (rx ic r2 t x)"
    by auto
  from Seq.prems(1) consider "nonEmpty r1" | "nonEmpty r2" by auto
  then show ?case
  proof cases
    case 1
    with Seq.IH(1) x(1) have "fst s < fst x" by blast
    with rx_advance[OF x(2)] show ?thesis by simp
  next
    case 2
    with Seq.IH(2) x(2) have "fst x < fst s'" by blast
    with rx_advance[OF x(1)] show ?thesis by simp
  qed
qed (auto split: if_splits)

lemma search_Some_matchAt:
  "search p t i = Some m \<Longrightarrow> matchAt p t (mstart m) = Some m"
proof (induction p t i rule: search.induct)
  case (1 p t i)
  from "1.prems" have le: "\<not> length t < i" by (auto simp: search.simps[of p t i] split: if_splits)
  show ?case
  proof (cases "matchAt p t i")
    case None
    with le "1.prems" have "search p t (Suc i) = Some m" by (simp add: search.simps[of p t i])
    with "1.IH"[OF le None] show ?thesis by simp
  next
    case (Some m')
    with le "1.prems" have "m' = m" by (simp add: search.simps[of p t i])
    with Some matchAt_bounds[of p t i m] show ?thesis by auto
  qed
qed

lemma matchAt_nonEmpty:
  assumes "matchAt p t i = Some m" "nonEmpty (source p)"
  shows "i < mend m"
proof -
  from assms(1) obtain s ss where s: "rx (ignoreCase p) (source p) t (i, []) = s # ss"
     and m: "m = \<lparr>mstart = i, mend = fst s, groups = snd s\<rparr>"
    by (auto simp: matchAt_def split: list.splits)
  from s have "s \<in> set (rx (ignoreCase p) (source p) t (i, []))" by simp
  from rx_nonEmpty[OF assms(2) this] m show ?thesis by simp
qed

lemma search_nonEmpty:
  assumes "search p t i = Some m" "nonEmpty (source p)"
  shows "mstart m < mend m"
  using matchAt_nonEmpty[OF search_Some_matchAt[OF assms(1)] assms(2)] .

lemma execLoop_spec:
  assumes ne: "nonEmpty (source p)"
  shows "\<exists>new. execLoop p t i acc = Some (acc @ new)
           \<and> sorted_wrt (<) (map index new)
           \<and> (\<forall>c\<in>set new. i \<le> index c \<and> 0 < candidate.amount c \<and> candidate.amount c < 100000)"
proof (induction "Suc (length t) - i" arbitrary: i acc rule: less_induct)
  case less
  show ?case
  proof (cases "search p t i")
    case None
    then have "execLoop p t i acc = Some (acc @ [])" by (subst execLoop.simps) simp
    then show ?thesis by (intro exI[of _ "[]"]) simp
  next
    case (Some m)
    from search_bounds[OF Some] search_nonEmpty[OF Some ne]
    have b: "i \<le> mstart m" "mstart m \<le> length t" "mstart m < mend m" by auto
    define pre where "pre =
       (case Option.bind (group m 1) parseFloat of
               None \<Rightarrow> []
             | Some a \<Rightarrow>
                 if a > 0 \<and> a < 100000
                 then [\<lparr>candidate.amount = a, index = mstart m, match = matched t m\<rparr>]
                 else [])"
    have step: "execLoop p t i acc = execLoop p t (mend m) (acc @ pre)"
      by (subst execLoop.simps) (simp add: Some pre_def split: option.splits)
    have pre: "\<forall>c\<in>set pre. index c = mstart m \<and> 0 < candidate.amount c \<and> candidate.amount c < 100000"
      "length pre \<le> 1"
      by (auto simp: pre_def split: option.splits)
    have "Suc (length t) - mend m < Suc (length t) - i" using b by arith
    from less[OF this, of "acc @ pre"] obtain new where
      new: "execLoop p t (mend m) (acc @ pre) = Some ((acc @ pre) @ new)"
        "sorted_wrt (<) (map index new)"
        "\<forall>c\<in>set new. mend m \<le> index c \<and> 0 < candidate.amount c \<and> candidate.amount c < 100000"
      by blast
    have "sorted_wrt (<) (map index (pre @ new))"
      using new(2,3) pre b by (cases pre) (auto simp: sorted_wrt_append)
    moreover have "\<forall>c\<in>set (pre @ new). i \<le> index c \<and> 0 < candidate.amount c \<and> candidate.amount c < 100000"
      using new(3) pre b by auto
    ultimately show ?thesis using step new(1) by (intro exI[of _ "pre @ new"]) simp
  qed
qed

lemma forPatterns_spec:
  assumes "\<forall>p\<in>set ps. nonEmpty (source p)"
  shows "\<exists>new. forPatterns ps t acc = Some (acc @ new)
           \<and> (\<forall>c\<in>set new. 0 < candidate.amount c \<and> candidate.amount c < 100000)"
  using assms
proof (induction ps arbitrary: acc)
  case Nil
  then show ?case by simp
next
  case (Cons p ps)
  from Cons.prems have "nonEmpty (source p)" by simp
  from execLoop_spec[OF this, of t 0 acc] obtain n1 where
    n1: "execLoop p t 0 acc = Some (acc @ n1)"
      "\<forall>c\<in>set n1. 0 < candidate.amount c \<and> candidate.amount c < 100000" by blast
  from Cons.IH[of "acc @ n1"] Cons.prems obtain n2 where
    n2: "forPatterns ps t (acc @ n1) = Some ((acc @ n1) @ n2)"
      "\<forall>c\<in>set n2. 0 < candidate.amount c \<and> candidate.amount c < 100000" by auto
  from n1 n2 show ?case by (intro exI[of _ "n1 @ n2"]) auto
qed

lemma AMOUNT_PATTERNS_nonEmpty: "\<forall>p\<in>set AMOUNT_PATTERNS. nonEmpty (source p)"
  by (simp add: AMOUNT_PATTERNS_def numeral_def Plus_def)

lemma collectAmounts_spec:
  "\<exists>results. collectAmounts t = Some results
      \<and> (\<forall>c\<in>set results. 0 < candidate.amount c \<and> candidate.amount c < 100000)"
  using forPatterns_spec[OF AMOUNT_PATTERNS_nonEmpty, of t "[]"] by (simp add: collectAmounts_def)


lemma removeDuplicates_subset: "set (removeDuplicates arr) \<subseteq> set arr"
  by (auto simp: removeDuplicates_def)

lemma removeDuplicates_strict:
  assumes "sorted (map index arr)"
  shows "sorted_wrt (\<lambda>a b. index a < index b) (removeDuplicates arr)"
proof -
  let ?keep = "\<lambda>i. i = 0 \<or> index (arr ! i) \<noteq> index (arr ! (i - 1))"
  have mono: "index (arr ! i) \<le> index (arr ! j)" if "i \<le> j" "j < length arr" for i j
    using assms that by (simp add: sorted_iff_nth_mono)
  have "sorted_wrt (<) (filter ?keep [0..<length arr])"
    by (rule sorted_wrt_filter) simp
  then have "sorted_wrt (\<lambda>i j. index (arr ! i) < index (arr ! j)) (filter ?keep [0..<length arr])"
  proof (rule sorted_wrt_mono_rel[rotated])
    fix i j
    assume i: "i \<in> set (filter ?keep [0..<length arr])"
       and j: "j \<in> set (filter ?keep [0..<length arr])" and lt: "i < j"
    from j lt have jn: "j < length arr" and ne: "index (arr ! j) \<noteq> index (arr ! (j - 1))" by auto
    from mono[of i "j - 1"] lt jn have "index (arr ! i) \<le> index (arr ! (j - 1))" by simp
    moreover from mono[of "j - 1" j] jn have "index (arr ! (j - 1)) \<le> index (arr ! j)" by simp
    ultimately show "index (arr ! i) < index (arr ! j)" using ne by simp
  qed
  then show ?thesis by (simp add: removeDuplicates_def sorted_wrt_map)
qed

lemma removeDuplicates_first:
  assumes "sorted (map index arr)" "c \<in> set (removeDuplicates arr)"
  shows "List.find (\<lambda>x. index x = index c) arr = Some c"
proof -
  have mono: "index (arr ! i) \<le> index (arr ! j)" if "i \<le> j" "j < length arr" for i j
    using assms(1) that by (simp add: sorted_iff_nth_mono)
  from assms(2) obtain i where i: "i < length arr" "c = arr ! i"
     "i = 0 \<or> index (arr ! i) \<noteq> index (arr ! (i - 1))"
    by (auto simp: removeDuplicates_def)
  have "index (arr ! j) \<noteq> index c" if "j < i" for j
  proof -
    from that i(3) have ne: "index (arr ! i) \<noteq> index (arr ! (i - 1))" by simp
    from mono[of j "i - 1"] that i(1) have "index (arr ! j) \<le> index (arr ! (i - 1))" by simp
    moreover from mono[of "i - 1" i] i(1) have "index (arr ! (i - 1)) \<le> index (arr ! i)" by simp
    ultimately show ?thesis using ne i(2) by simp
  qed
  with i(1,2) show ?thesis unfolding find_Some_iff by blast
qed

lemma removeDuplicates_offsets:
  "index ` set (removeDuplicates arr) = index ` set arr"
proof
  show "index ` set (removeDuplicates arr) \<subseteq> index ` set arr"
    using removeDuplicates_subset by blast
next
  show "index ` set arr \<subseteq> index ` set (removeDuplicates arr)"
  proof
    fix k assume "k \<in> index ` set arr"
    then have "List.find (\<lambda>x. index x = k) arr \<noteq> None" by (auto simp: find_None_iff)
    then obtain c where "List.find (\<lambda>x. index x = k) arr = Some c" by auto
    then obtain i where i: "i < length arr" "index (arr ! i) = k" "\<forall>j<i. index (arr ! j) \<noteq> k"
      unfolding find_Some_iff by blast
    then have "i = 0 \<or> index (arr ! i) \<noteq> index (arr ! (i - 1))" by (cases i) auto
    with i(1) have "arr ! i \<in> set (removeDuplicates arr)"
      by (auto simp: removeDuplicates_def)
    with i(2) show "k \<in> index ` set (removeDuplicates arr)" by force
  qed
qed

lemma find_filter: "List.find P xs = (case filter P xs of [] \<Rightarrow> None | x # _ \<Rightarrow> Some x)"
  by (induction xs) auto

lemma find_sort_key: "List.find (\<lambda>x. f x = k) (sort_key f xs) = List.find (\<lambda>x. f x = k) xs"
  by (simp add: find_filter sort_key_stable)

lemma forPatterns_none:
  "\<forall>p\<in>set ps. search p t 0 = None \<Longrightarrow> forPatterns ps t acc = Some acc"
  by (induction ps) (auto simp: execLoop.simps[of _ t 0])

text \<open>
  Claim C1. For every input, \<open>extractAmounts\<close> returns (it never fails to return) a
  sequence of candidates in strictly ascending offset, so no two share an offset; every
  value lies strictly between 0 and 100000; each returned candidate is the first one
  with its offset in pattern-scan order, and every offset found is kept; when no
  pattern matches the result is empty.
\<close>

theorem C1_extractAmounts:
  "\<exists>results out.
     collectAmounts text = Some results \<and> extractAmounts text = Some out
     \<and> sorted_wrt (\<lambda>a b. index a < index b) out
     \<and> (\<forall>c\<in>set out. 0 < candidate.amount c \<and> candidate.amount c < 100000)
     \<and> (\<forall>c\<in>set out. List.find (\<lambda>x. index x = index c) results = Some c)
     \<and> index ` set out = index ` set results
     \<and> ((\<forall>p\<in>set AMOUNT_PATTERNS. search p text 0 = None) \<longrightarrow> out = [])"
proof -
  from collectAmounts_spec[of "text"] obtain results where
    r: "collectAmounts text = Some results"
       "\<forall>c\<in>set results. 0 < candidate.amount c \<and> candidate.amount c < 100000" by blast
  let ?arr = "sort_key index results"
  let ?out = "removeDuplicates ?arr"
  have out: "extractAmounts text = Some ?out" by (simp add: extractAmounts_def r(1))
  have sorted: "sorted (map index ?arr)" by simp
  have 1: "sorted_wrt (\<lambda>a b. index a < index b) ?out"
    by (rule removeDuplicates_strict[OF sorted])
  have 2: "\<forall>c\<in>set ?out. 0 < candidate.amount c \<and> candidate.amount c < 100000"
    using removeDuplicates_subset[of ?arr] r(2) by auto
  have 3: "\<forall>c\<in>set ?out. List.find (\<lambda>x. index x = index c) results = Some c"
    using removeDuplicates_first[OF sorted] by (simp add: find_sort_key)
  have 4: "index ` set ?out = index ` set results"
    by (simp add: removeDuplicates_offsets)
  have 5: "(\<forall>p\<in>set AMOUNT_PATTERNS. search p text 0 = None) \<longrightarrow> ?out = []"
  proof
    assume "\<forall>p\<in>set AMOUNT_PATTERNS. search p text 0 = None"
    from forPatterns_none[OF this, of "[]"] r(1) have "results = []"
      by (simp add: collectAmounts_def)
    then show "?out = []" by (simp add: removeDuplicates_def)
  qed
  from r(1) out 1 2 3 4 5 show ?thesis by blast
qed

theorem C1_extractAmounts_witness:
  "collectAmounts ''7 dollars and $15'' =
     Some [\<lparr>candidate.amount = 15, index = 14, match = ''$15''\<rparr>,
           \<lparr>candidate.amount = 7, index = 0, match = ''7 dollars''\<rparr>]
   \<and> extractAmounts ''7 dollars and $15'' =
     Some [\<lparr>candidate.amount = 7, index = 0, match = ''7 dollars''\<rparr>,
           \<lparr>candidate.amount = 15, index = 14, match = ''$15''\<rparr>]
   \<and> sorted_wrt (\<lambda>a b. index a < index b)
         [\<lparr>candidate.amount = 7, index = 0, match = ''7 dollars''\<rparr>,
          \<lparr>candidate.amount = 15, index = 14, match = ''$15''\<rparr>]
   \<and> list_all (\<lambda>p. search p ''no numbers here'' 0 = None) AMOUNT_PATTERNS
   \<and> extractAmounts ''no numbers here'' = Some []"
proof -
  have a: "collectAmounts ''7 dollars and $15'' =
     Some [\<lparr>candidate.amount = 15, index = 14, match = ''$15''\<rparr>,
           \<lparr>candidate.amount = 7, index = 0, match = ''7 dollars''\<rparr>]"
    by code_simp
  have b: "extractAmounts ''7 dollars and $15'' =
     Some [\<lparr>candidate.amount = 7, index = 0, match = ''7 dollars''\<rparr>,
           \<lparr>candidate.amount = 15, index = 14, match = ''$15''\<rparr>]"
    by code_simp
  have c: "list_all (\<lambda>p. search p ''no numbers here'' 0 = None) AMOUNT_PATTERNS"
    by code_simp
  from C1_extractAmounts[of "''no numbers here''"] c
  have d: "extractAmounts ''no numbers here'' = Some []"
    by (auto simp: list_all_iff)
  from C1_extractAmounts[of "''7 dollars and $15''"] b
  have e: "sorted_wrt (\<lambda>a b. index a < index b)
         [\<lparr>candidate.amount = 7, index = 0, match = ''7 dollars''\<rparr>,
          \<lparr>candidate.amount = 15, index = 14, match = ''$15''\<rparr>]"
    by auto
  from a b c d e show ?thesis by blast
qed

subsection \<open>Every match binds its groups; the description extractor always returns\<close>

lemma rx_upper: "s' \<in> set (rx ic r t s) \<Longrightarrow> fst s \<le> length t \<Longrightarrow> fst s' \<le> length t"
proof (induction ic r t s arbitrary: s' rule: rx.induct)
  case (4 ic r1 r2 t s)
  from "4.prems" obtain x where x: "x \<in> set (rx ic r1 t s)" "s' \<in> set (rx ic r2 t x)"
    by auto
  from "4.IH"(1)[OF x(1) "4.prems"(2)] "4.IH"(2)[OF x] show ?case by simp
next
  case (5 ic r1 r2 t s)
  from "5.prems" "5.IH"(1)[of s'] "5.IH"(2)[of s'] show ?case by auto
next
  case (6 ic r t s)
  from "6.prems" consider "s' = s"
    | x where "x \<in> set (rx ic r t s)" "fst s < fst x" "fst x \<le> length t"
        "s' \<in> set (rx ic (Star r) t x)"
    unfolding rx.simps(6)[of ic r t s] by (auto split: if_splits)
  then show ?case
  proof cases
    case 1
    with "6.prems" show ?thesis by simp
  next
    case 2
    from "6.IH"(2)[OF 2(1) _ 2(4)] 2(2,3) show ?thesis by simp
  qed
next
  case (7 ic r t s)
  from "7.prems" consider "s' = s"
    | x where "x \<in> set (rx ic r t s)" "fst s < fst x" "fst x \<le> length t"
        "s' \<in> set (rx ic (LazyStar r) t x)"
    unfolding rx.simps(7)[of ic r t s] by (auto split: if_splits)
  then show ?case
  proof cases
    case 1
    with "7.prems" show ?thesis by simp
  next
    case 2
    from "7.IH"(2)[OF 2(1) _ 2(4)] 2(2,3) show ?thesis by simp
  qed
next
  case (8 ic n r t s)
  from "8.prems" obtain x where "x \<in> set (rx ic r t s)" "fst s' = fst x" by auto
  with "8.IH"[of x] "8.prems"(2) show ?case by simp
next
  case (9 ic r t s)
  from "9.prems" show ?case by (auto split: list.splits)
qed (auto split: if_splits)

lemma rx_keeps: "s' \<in> set (rx ic r t s) \<Longrightarrow> n \<in> fst ` set (snd s) \<Longrightarrow> n \<in> fst ` set (snd s')"
proof (induction ic r t s arbitrary: s' rule: rx.induct)
  case (4 ic r1 r2 t s)
  from "4.prems" obtain x where x: "x \<in> set (rx ic r1 t s)" "s' \<in> set (rx ic r2 t x)"
    by auto
  from "4.IH"(2)[OF x "4.IH"(1)[OF x(1) "4.prems"(2)]] show ?case .
next
  case (5 ic r1 r2 t s)
  from "5.prems" "5.IH"(1)[of s'] "5.IH"(2)[of s'] show ?case by auto
next
  case (6 ic r t s)
  from "6.prems" consider "s' = s"
    | x where "x \<in> set (rx ic r t s)" "fst s < fst x" "fst x \<le> length t"
        "s' \<in> set (rx ic (Star r) t x)"
    unfolding rx.simps(6)[of ic r t s] by (auto split: if_splits)
  then show ?case
  proof cases
    case 1
    with "6.prems" show ?thesis by simp
  next
    case 2
    from "6.IH"(2)[OF 2(1) _ 2(4)] "6.IH"(1)[OF 2(1) "6.prems"(2)] 2(2,3) show ?thesis by simp
  qed
next
  case (7 ic r t s)
  from "7.prems" consider "s' = s"
    | x where "x \<in> set (rx ic r t s)" "fst s < fst x" "fst x \<le> length t"
        "s' \<in> set (rx ic (LazyStar r) t x)"
    unfolding rx.simps(7)[of ic r t s] by (auto split: if_splits)
  then show ?case
  proof cases
    case 1
    with "7.prems" show ?thesis by simp
  next
    case 2
    from "7.IH"(2)[OF 2(1) _ 2(4)] "7.IH"(1)[OF 2(1) "7.prems"(2)] 2(2,3) show ?thesis by simp
  qed
next
  case (8 ic m r t s)
  from "8.prems" obtain x where x: "x \<in> set (rx ic r t s)" "snd s' = (m, substring t (fst s) (fst x)) # snd x" by auto
  from "8.IH"[OF x(1) "8.prems"(2)] x(2) show ?case by simp
next
  case (9 ic r t s)
  from "9.prems"(1) obtain x xs where x: "rx ic r t s = x # xs" "snd s' = snd x"
    by (cases "rx ic r t s") auto
  then have "x \<in> set (rx ic r t s)" by simp
  from "9.IH"[OF this "9.prems"(2)] x(2) show ?case by simp
qed (auto split: if_splits)

lemma rx_binds: "binds n r \<Longrightarrow> s' \<in> set (rx ic r t s) \<Longrightarrow> n \<in> fst ` set (snd s')"
proof (induction r arbitrary: s s')
  case (Seq r1 r2)
  from Seq.prems(2) obtain x where x: "x \<in> set (rx ic r1 t s)" "s' \<in> set (rx ic r2 t x)"
    by auto
  from Seq.prems(1) consider "binds n r1" | "binds n r2" by auto
  then show ?case
  proof cases
    case 1
    from rx_keeps[OF x(2) Seq.IH(1)[OF 1 x(1)]] show ?thesis .
  next
    case 2
    from Seq.IH(2)[OF 2 x(2)] show ?thesis .
  qed
next
  case (Alt r1 r2)
  from Alt.prems have "binds n r1" "binds n r2"
    "s' \<in> set (rx ic r1 t s) \<or> s' \<in> set (rx ic r2 t s)" by auto
  with Alt.IH(1)[of s' s] Alt.IH(2)[of s' s] show ?case by blast
next
  case (Group m r)
  from Group.prems(2) obtain x where x: "x \<in> set (rx ic r t s)" "snd s' = (m, substring t (fst s) (fst x)) # snd x" by auto
  show ?case
  proof (cases "n = m")
    case True
    with x(2) show ?thesis by simp
  next
    case False
    with Group.prems(1) have "binds n r" by simp
    from Group.IH[OF this x(1)] x(2) show ?thesis by simp
  qed
next
  case (Look r)
  from Look.prems(2) obtain x xs where x: "rx ic r t s = x # xs" "snd s' = snd x"
    by (cases "rx ic r t s") auto
  then have "x \<in> set (rx ic r t s)" by simp
  from Look.IH[OF _ this] Look.prems(1) x(2) show ?case by simp
qed auto

lemma search_binds:
  assumes "search p t i = Some m" "binds n (source p)"
  shows "\<exists>g. group m n = Some g"
proof -
  from search_Some_matchAt[OF assms(1)]
  obtain s ss where s: "rx (ignoreCase p) (source p) t (mstart m, []) = s # ss"
     and m': "m = \<lparr>mstart = mstart m, mend = fst s, groups = snd s\<rparr>"
    by (auto simp: matchAt_def split: list.splits)
  from m' have m: "groups m = snd s" by (metis rmatch.select_convs(3))
  from s have "s \<in> set (rx (ignoreCase p) (source p) t (mstart m, []))" by simp
  from rx_binds[OF assms(2) this] m have "n \<in> fst ` set (groups m)" by simp
  then show ?thesis by (cases "map_of (groups m) n") (auto simp: group_def map_of_eq_None_iff)
qed

lemma splitLoop_nonempty: "splitLoop sep t p q \<noteq> []"
proof (induction sep t p q rule: splitLoop.induct)
  case (1 sep t p q)
  show ?case
  proof (cases "q < length t")
    case False
    then show ?thesis by (simp add: splitLoop.simps[of sep t p q])
  next
    case True
    show ?thesis
    proof (cases "matchAt sep t q")
      case None
      with True "1.IH"(1) show ?thesis by (simp add: splitLoop.simps[of sep t p q])
    next
      case (Some m)
      with True "1.IH"(2)[OF True Some refl] show ?thesis
        by (simp add: splitLoop.simps[of sep t p q] Let_def)
    qed
  qed
qed

lemma matchAt_upper:
  assumes "matchAt p t i = Some m" "i \<le> length t"
  shows "mend m \<le> length t"
proof -
  from assms(1) obtain s ss where s: "rx (ignoreCase p) (source p) t (i, []) = s # ss"
     and m: "m = \<lparr>mstart = i, mend = fst s, groups = snd s\<rparr>"
    by (auto simp: matchAt_def split: list.splits)
  from s have "s \<in> set (rx (ignoreCase p) (source p) t (i, []))" by simp
  from rx_upper[OF this] assms(2) m show ?thesis by simp
qed

lemma str_split_nonempty:
  assumes "nonEmpty (source sep)"
  shows "str_split sep t \<noteq> []"
proof (cases "t = []")
  case False
  then show ?thesis by (simp add: str_split_def splitLoop_nonempty)
next
  case True
  have "matchAt sep [] 0 = None"
  proof (cases "matchAt sep [] 0")
    case (Some m)
    from matchAt_nonEmpty[OF Some assms] matchAt_upper[OF Some] show ?thesis by simp
  qed simp
  with True show ?thesis by (simp add: str_split_def)
qed

lemma lastPart_Some: "\<exists>s. lastPart b = Some s"
proof -
  have "nonEmpty (source delimiters)" by (simp add: delimiters_def)
  from str_split_nonempty[OF this, of b] show ?thesis
    by (cases "str_split delimiters b") (auto simp: lastPart_def)
qed

lemma firstSegment_Some: "\<exists>s. firstSegment b a = Some s"
proof (cases "matchFirst afterPattern a")
  case None
  with lastPart_Some[of b] show ?thesis by (auto simp: firstSegment_def)
next
  case (Some m)
  have "binds 1 (source afterPattern)" by (simp add: afterPattern_def)
  from search_binds[OF Some[unfolded matchFirst_def] this] obtain g where "group m 1 = Some g" by blast
  with Some lastPart_Some[of b] show ?thesis by (auto simp: firstSegment_def)
qed

lemma extractDescription_Some: "\<exists>d. extractDescription t c n = Some d"
  using firstSegment_Some[of "substring t 0 (index c)" "drop (index c + length (match c)) t"]
  by (auto simp: extractDescription_def Let_def)

lemma toExpense_Some:
  "\<exists>e. toExpense t cs i = Some e \<and> ParsedExpense.amount e = candidate.amount (cs ! i)
      \<and> category e = fst (detectCategory (description e))
      \<and> confidence e = snd (detectCategory (description e))
      \<and> needsReview e = (confidence e < 7 / 10)"
proof -
  from extractDescription_Some obtain d where
    "extractDescription t (cs ! i) (if Suc i < length cs then Some (cs ! Suc i) else None) = Some d"
    by blast
  then show ?thesis by (simp add: toExpense_def Let_def)
qed

lemma mapOption_Some:
  assumes "\<And>x. x \<in> set xs \<Longrightarrow> \<exists>y. f x = Some y \<and> P x y"
  shows "\<exists>ys. mapOption f xs = Some ys \<and> list_all2 P xs ys"
  using assms
proof (induction xs)
  case Nil
  then show ?case by simp
next
  case (Cons x xs)
  from Cons.prems[of x] obtain y where y: "f x = Some y" "P x y" by auto
  from Cons.IH Cons.prems obtain ys where "mapOption f xs = Some ys" "list_all2 P xs ys" by auto
  with y show ?case by auto
qed

subsection \<open>The expense segmenter\<close>

lemma extractAmounts_total:
  "\<exists>cands. extractAmounts t = Some cands \<and> sorted_wrt (\<lambda>a b. index a < index b) cands
      \<and> (\<forall>c\<in>set cands. 0 < candidate.amount c \<and> candidate.amount c < 100000)"
proof -
  from collectAmounts_spec[of t] obtain results where
    r: "collectAmounts t = Some results"
       "\<forall>c\<in>set results. 0 < candidate.amount c \<and> candidate.amount c < 100000" by blast
  have "sorted (map index (sort_key index results))" by simp
  from removeDuplicates_strict[OF this] removeDuplicates_subset[of "sort_key index results"] r
  show ?thesis by (auto simp: extractAmounts_def)
qed

lemma extractAmounts_Nil: "extractAmounts [] = Some []"
  by code_simp

lemma map_toExpense:
  "\<exists>es. mapOption (toExpense t cs) [0..<length cs] = Some es \<and> list_all2 expenseOf cs es"
proof -
  have "\<exists>es. mapOption (toExpense t cs) [0..<length cs] = Some es
           \<and> list_all2 (\<lambda>i e. expenseOf (cs ! i) e) [0..<length cs] es"
  proof (rule mapOption_Some)
    fix i
    from toExpense_Some[of t cs i]
    show "\<exists>e. toExpense t cs i = Some e \<and> expenseOf (cs ! i) e"
      by (auto simp: expenseOf_def)
  qed
  then obtain es where es: "mapOption (toExpense t cs) [0..<length cs] = Some es"
    "list_all2 (\<lambda>i e. expenseOf (cs ! i) e) [0..<length cs] es" by blast
  from es(2) have "list_all2 expenseOf cs es"
    by (auto simp: list_all2_conv_all_nth)
  with es(1) show ?thesis by blast
qed

lemma parseExpenses_spec:
  assumes "extractAmounts (trim input) = Some cands"
  shows "\<exists>res. parseExpenses input = Some res \<and> rawInput res = input
           \<and> (if trim input = [] \<or> cands = []
               then \<not> success res \<and> expenses res = []
               else success res \<and> list_all2 expenseOf cands (expenses res))"
proof (cases "trim input = [] \<or> cands = []")
  case True
  with assms show ?thesis by (auto simp: parseExpenses_def Let_def)
next
  case False
  from map_toExpense[of "trim input" cands] obtain es where
    "mapOption (toExpense (trim input) cands) [0..<length cands] = Some es"
    "list_all2 expenseOf cands es" by blast
  with False assms show ?thesis by (auto simp: parseExpenses_def Let_def)
qed

lemma parseExpenses_total: "\<exists>res. parseExpenses input = Some res"
  using extractAmounts_total[of "trim input"] parseExpenses_spec[of input] by blast

text \<open>
  Claim C3, as amended. When \<open>extractAmounts\<close> finds the candidates \<open>cands\<close>, at least
  one, in the trimmed input, \<open>parseExpenses\<close> succeeds with one expense for each
  candidate, in the order of the candidates, which is the order of their offsets, and
  each expense has the amount of its candidate. With exactly one candidate there is
  exactly one expense.
\<close>

theorem C3_parseExpenses_one_per_candidate:
  assumes "extractAmounts (trim input) = Some cands" and "cands \<noteq> []"
  shows "\<exists>res. parseExpenses input = Some res \<and> success res
           \<and> length (expenses res) = length cands
           \<and> map ParsedExpense.amount (expenses res) = map candidate.amount cands
           \<and> sorted_wrt (\<lambda>a b. index a < index b) cands
           \<and> (\<forall>c. cands = [c] \<longrightarrow>
                 (\<exists>e. expenses res = [e] \<and> ParsedExpense.amount e = candidate.amount c))"
proof -
  from assms extractAmounts_Nil have "trim input \<noteq> []" by auto
  with parseExpenses_spec[OF assms(1)] assms(2) obtain res where
    res: "parseExpenses input = Some res" "success res" "list_all2 expenseOf cands (expenses res)"
    by (auto split: if_splits)
  from res(3) have len: "length (expenses res) = length cands"
    by (simp add: list_all2_lengthD)
  have amounts: "map ParsedExpense.amount (expenses res) = map candidate.amount cands"
  proof (rule nth_equalityI)
    show "length (map ParsedExpense.amount (expenses res)) = length (map candidate.amount cands)"
      using len by simp
  next
    fix i assume "i < length (map ParsedExpense.amount (expenses res))"
    with len have i: "i < length cands" by simp
    from list_all2_nthD[OF res(3) i] have "expenseOf (cands ! i) (expenses res ! i)" .
    with i len show "map ParsedExpense.amount (expenses res) ! i = map candidate.amount cands ! i"
      by (simp add: expenseOf_def)
  qed
  have one: "\<exists>e. expenses res = [e] \<and> ParsedExpense.amount e = candidate.amount c"
    if "cands = [c]" for c
  proof -
    from that len obtain e where e: "expenses res = [e]"
      by (cases "expenses res") auto
    with amounts that show ?thesis by simp
  qed
  from extractAmounts_total[of "trim input"] assms(1)
  have "sorted_wrt (\<lambda>a b. index a < index b) cands" by auto
  with res(1,2) len amounts one show ?thesis by blast
qed

theorem C3_parseExpenses_witness:
  "extractAmounts (trim '' $15 lunch and $40 fuel '') =
     Some [\<lparr>candidate.amount = 15, index = 0, match = ''$15''\<rparr>,
           \<lparr>candidate.amount = 40, index = 14, match = ''$40''\<rparr>]
   \<and> map_option success (parseExpenses '' $15 lunch and $40 fuel '') = Some True
   \<and> map_option (map ParsedExpense.amount \<circ> expenses) (parseExpenses '' $15 lunch and $40 fuel '')
        = Some [15, 40]"
proof -
  have a: "extractAmounts (trim '' $15 lunch and $40 fuel '') =
     Some [\<lparr>candidate.amount = 15, index = 0, match = ''$15''\<rparr>,
           \<lparr>candidate.amount = 40, index = 14, match = ''$40''\<rparr>]"
    by code_simp
  from C3_parseExpenses_one_per_candidate[OF a] show ?thesis using a by auto
qed

text \<open>
  The claim as first stated fails: the text \<open>$100000\<close> holds exactly one amount-shaped
  token, matched by the first pattern and by no other, and gives no expense.
\<close>

theorem C3_one_token_counterexample:
  "matchGlobal (AMOUNT_PATTERNS ! 0) ''$100000'' = [''$100000'']
   \<and> matchGlobal (AMOUNT_PATTERNS ! 1) ''$100000'' = []
   \<and> matchGlobal (AMOUNT_PATTERNS ! 2) ''$100000'' = []
   \<and> parseExpenses ''$100000'' = Some \<lparr>success = False, expenses = [], rawInput = ''$100000''\<rparr>"
  by code_simp

text \<open>
  Claim C4. \<open>parseExpenses\<close> always returns; it reports failure, with no expenses,
  exactly when the input trims to the empty string or no candidate is found; the three
  inputs named by the specification fail in this way.
\<close>

theorem C4_parseExpenses_failure:
  "(\<exists>res. parseExpenses input = Some res
       \<and> (success res \<longleftrightarrow> \<not> (trim input = [] \<or> extractAmounts (trim input) = Some []))
       \<and> (\<not> success res \<longrightarrow> expenses res = [])
       \<and> (success res \<longrightarrow> expenses res \<noteq> []))
   \<and> parseExpenses [] = Some \<lparr>success = False, expenses = [], rawInput = []\<rparr>
   \<and> parseExpenses ''   '' = Some \<lparr>success = False, expenses = [], rawInput = ''   ''\<rparr>
   \<and> parseExpenses ''no numbers here''
        = Some \<lparr>success = False, expenses = [], rawInput = ''no numbers here''\<rparr>"
proof -
  from extractAmounts_total[of "trim input"] obtain cands where
    c: "extractAmounts (trim input) = Some cands" by blast
  from parseExpenses_spec[OF c] obtain res where
    res: "parseExpenses input = Some res"
      "if trim input = [] \<or> cands = []
       then \<not> success res \<and> expenses res = []
       else success res \<and> list_all2 expenseOf cands (expenses res)" by blast
  have "success res \<longleftrightarrow> \<not> (trim input = [] \<or> extractAmounts (trim input) = Some [])"
    using res(2) c by (auto split: if_splits)
  moreover have "\<not> success res \<longrightarrow> expenses res = []"
    using res(2) by (auto split: if_splits)
  moreover have "success res \<longrightarrow> expenses res \<noteq> []"
    using res(2) by (auto split: if_splits dest: list_all2_lengthD)
  moreover have "parseExpenses [] = Some \<lparr>success = False, expenses = [], rawInput = []\<rparr>"
    by code_simp
  moreover have "parseExpenses ''   '' = Some \<lparr>success = False, expenses = [], rawInput = ''   ''\<rparr>"
    by code_simp
  moreover have "parseExpenses ''no numbers here''
        = Some \<lparr>success = False, expenses = [], rawInput = ''no numbers here''\<rparr>"
    by code_simp
  ultimately show ?thesis using res(1) by blast
qed

theorem C4_parseExpenses_failure_witness:
  "trim ''  $0 and 100000 dollars '' \<noteq> []
   \<and> extractAmounts (trim ''  $0 and 100000 dollars '') = Some []
   \<and> map_option success (parseExpenses ''  $0 and 100000 dollars '') = Some False
   \<and> map_option expenses (parseExpenses ''  $0 and 100000 dollars '') = Some []"
proof -
  have a: "trim ''  $0 and 100000 dollars '' \<noteq> []" by code_simp
  have b: "extractAmounts (trim ''  $0 and 100000 dollars '') = Some []" by code_simp
  from C4_parseExpenses_failure[of "''  $0 and 100000 dollars ''"] a b
  show ?thesis by auto
qed

subsection \<open>The category classifier\<close>

lemma str_includes_sublist: "str_includes s k \<longleftrightarrow> sublist k s"
  by (induction s) (simp_all add: sublist_Cons_right)

lemma keywordScore_foldl:
  "foldl (\<lambda>score keyword. if str_includes l keyword then score + length keyword else score) a kws
     = a + sum_list (map length (filter (str_includes l) kws))"
  by (induction kws arbitrary: a) simp_all

lemma keywordScore_spec:
  assumes "distinct kws"
  shows "keywordScore l kws = spec_score l kws"
proof -
  have "keywordScore l kws = sum_list (map length (filter (str_includes l) kws))"
    by (simp add: keywordScore_def keywordScore_foldl)
  also have "\<dots> = sum length (set (filter (str_includes l) kws))"
    using assms by (simp add: sum_list_distinct_conv_sum_set)
  also have "set (filter (str_includes l) kws) = {k \<in> set kws. sublist k l}"
    by (auto simp: str_includes_sublist)
  finally show ?thesis by (simp add: spec_score_def)
qed

lemma foldl_categoryStep:
  "foldl (categoryStep l) b table =
     foldl keepHigher b (map (\<lambda>entry. (fst entry, keywordScore l (snd entry)))
                            (filter (\<lambda>entry. fst entry \<noteq> Other) table))"
  by (induction table arbitrary: b) (simp_all add: categoryStep_def keepHigher_def Let_def)

lemma foldl_keepHigher:
  "foldl keepHigher b es =
     (let top = Max (insert (snd b) (snd ` set es))
      in if top > snd b then the (List.find (\<lambda>e. snd e = top) es) else b)"
proof (induction es arbitrary: b)
  case Nil
  then show ?case by simp
next
  case (Cons e es)
  let ?S = "snd ` set es"
  have fin: "finite ?S" by simp
  show ?case
  proof (cases "snd e > snd b")
    case True
    then have step: "keepHigher b e = e" by (simp add: keepHigher_def)
    have top: "Max (insert (snd b) (snd ` set (e # es))) = Max (insert (snd e) ?S)"
    proof -
      have "Max (insert (snd b) (insert (snd e) ?S)) = max (snd b) (Max (insert (snd e) ?S))"
        using fin by (subst Max_insert) auto
      also have "\<dots> = Max (insert (snd e) ?S)"
      proof -
        have "snd e \<le> Max (insert (snd e) ?S)" by (rule Max_ge) (use fin in auto)
        with True have "snd b \<le> Max (insert (snd e) ?S)" by linarith
        then show ?thesis by (rule max_absorb2)
      qed
      finally show ?thesis by simp
    qed
    define M where "M = Max (insert (snd e) ?S)"
    have ge: "snd e \<le> M" unfolding M_def by (rule Max_ge) (use fin in auto)
    have ih: "foldl keepHigher e es
                = (if M > snd e then the (List.find (\<lambda>x. snd x = M) es) else e)"
      using Cons.IH[of e] by (simp add: Let_def M_def)
    have "foldl keepHigher b (e # es) = foldl keepHigher e es" by (simp add: step)
    also have "\<dots> = (if M > snd b then the (List.find (\<lambda>x. snd x = M) (e # es)) else b)"
      using ih True ge by (cases "snd e = M") auto
    finally show ?thesis unfolding top Let_def M_def .
  next
    case False
    then have step: "keepHigher b e = b" by (simp add: keepHigher_def)
    have top: "Max (insert (snd b) (snd ` set (e # es))) = Max (insert (snd b) ?S)"
    proof -
      have "insert (snd b) (snd ` set (e # es)) = insert (snd e) (insert (snd b) ?S)" by auto
      then have "Max (insert (snd b) (snd ` set (e # es))) = max (snd e) (Max (insert (snd b) ?S))"
        using fin by (simp del: Max_insert add: Max_insert[of "insert (snd b) ?S"])
      also have "\<dots> = Max (insert (snd b) ?S)"
      proof -
        have "snd b \<le> Max (insert (snd b) ?S)" by (rule Max_ge) (use fin in auto)
        with False have "snd e \<le> Max (insert (snd b) ?S)" by linarith
        then show ?thesis by (rule max_absorb2)
      qed
      finally show ?thesis .
    qed
    define M where "M = Max (insert (snd b) ?S)"
    have ih: "foldl keepHigher b es
                = (if M > snd b then the (List.find (\<lambda>x. snd x = M) es) else b)"
      using Cons.IH[of b] by (simp add: Let_def M_def)
    have "foldl keepHigher b (e # es) = foldl keepHigher b es" by (simp add: step)
    also have "\<dots> = (if M > snd b then the (List.find (\<lambda>x. snd x = M) (e # es)) else b)"
      using ih False by auto
    finally show ?thesis unfolding top Let_def M_def .
  qed
qed


lemma CATEGORY_KEYWORDS_distinct: "\<forall>entry\<in>set CATEGORY_KEYWORDS. distinct (snd entry)"
  by (simp add: CATEGORY_KEYWORDS_def)

lemma CATEGORY_KEYWORDS_length: "\<forall>entry\<in>set CATEGORY_KEYWORDS. \<forall>k\<in>set (snd entry). 3 \<le> length k"
  by (simp add: CATEGORY_KEYWORDS_def)

lemma Max_insert_0:
  fixes S :: "nat set"
  assumes "finite S" "S \<noteq> {}"
  shows "Max (insert 0 S) = Max S"
  using assms by simp

text \<open>
  Claim C2. \<open>detectCategory\<close> computes what the specification describes: the text is
  put in lower case; each category but \<open>other\<close> scores the summed lengths of those of
  its keywords that occur in the text, each keyword once; the first category of the
  table with the highest score wins; a positive highest score gives the confidence
  \<open>min(0.95, 0.6 + score * 0.05)\<close>, and otherwise the result is \<open>other\<close> with 0.4.
\<close>

theorem C2_detectCategory_refines_spec:
  "detectCategory text = spec_detectCategory text"
proof -
  let ?l = "toLowerCase text"
  let ?table = "filter (\<lambda>entry. fst entry \<noteq> Other) CATEGORY_KEYWORDS"
  let ?scores = "map (\<lambda>entry. (fst entry, spec_score ?l (snd entry))) ?table"
  have same: "map (\<lambda>entry. (fst entry, keywordScore ?l (snd entry))) ?table = ?scores"
    using CATEGORY_KEYWORDS_distinct by (intro map_cong) (auto simp: keywordScore_spec)
  have ne: "snd ` set ?scores \<noteq> {}" by (simp add: CATEGORY_KEYWORDS_def)
  have top: "Max (insert 0 (snd ` set ?scores)) = Max (snd ` set ?scores)"
    by (rule Max_insert_0[OF _ ne]) simp
  have fold: "foldl (categoryStep ?l) (Other, 0) CATEGORY_KEYWORDS =
      (if Max (snd ` set ?scores) > 0
       then the (List.find (\<lambda>e. snd e = Max (snd ` set ?scores)) ?scores) else (Other, 0))"
    unfolding foldl_categoryStep same foldl_keepHigher Let_def snd_conv top ..
  define highest where "highest = Max (snd ` set ?scores)"
  define found where "found = the (List.find (\<lambda>e. snd e = highest) ?scores)"
  have max_in: "highest \<in> snd ` set ?scores"
    unfolding highest_def by (rule Max_in) (use ne in auto)
  then obtain x where "x \<in> set ?scores" "snd x = highest" by blast
  then have "List.find (\<lambda>e. snd e = highest) ?scores \<noteq> None"
    unfolding find_None_iff by blast
  then obtain e where e: "List.find (\<lambda>e. snd e = highest) ?scores = Some e" by auto
  then have "snd e = highest" by (auto simp: find_Some_iff)
  with e have snd_found: "snd found = highest" by (simp add: found_def)
  have fold': "foldl (categoryStep ?l) (Other, 0) CATEGORY_KEYWORDS
                = (if highest > 0 then found else (Other, 0))"
    unfolding highest_def found_def by (rule fold)
  have lhs: "detectCategory text =
      (if highest > 0
       then (fst found, min (95 / 100) (6 / 10 + of_nat highest * (5 / 100)))
       else (Other, 4 / 10))"
    unfolding detectCategory_def Let_def fold' using snd_found by (cases "highest > 0") simp_all
  have rhs: "spec_detectCategory text =
      (if highest > 0
       then (fst found, min (95 / 100) (6 / 10 + of_nat highest * (5 / 100)))
       else (Other, 4 / 10))"
    by (simp only: spec_detectCategory_def Let_def highest_def found_def)
  from lhs rhs show ?thesis by simp
qed

theorem C2_detectCategory_witness:
  "spec_detectCategory ''Eating GROCERIES at the mall'' = (Food, 95 / 100)
   \<and> spec_detectCategory ''bus or gym'' = (Transport, 75 / 100)
   \<and> spec_detectCategory ''nothing'' = (Other, 4 / 10)"
proof -
  have "detectCategory ''Eating GROCERIES at the mall'' = (Food, 95 / 100)" by code_simp
  moreover have "detectCategory ''bus or gym'' = (Transport, 75 / 100)" by code_simp
  moreover have "detectCategory ''nothing'' = (Other, 4 / 10)" by code_simp
  ultimately show ?thesis
    using C2_detectCategory_refines_spec[of "''Eating GROCERIES at the mall''"]
      C2_detectCategory_refines_spec[of "''bus or gym''"]
      C2_detectCategory_refines_spec[of "''nothing''"]
    by simp
qed

lemma keywordScore_ge3:
  assumes "\<forall>k\<in>set kws. 3 \<le> length k" "0 < keywordScore l kws"
  shows "3 \<le> keywordScore l kws"
proof -
  let ?hits = "filter (str_includes l) kws"
  have eq: "keywordScore l kws = sum_list (map length ?hits)"
    by (simp add: keywordScore_def keywordScore_foldl)
  with assms(2) have "?hits \<noteq> []" by auto
  then obtain k ks where k: "?hits = k # ks" by (cases ?hits) auto
  then have "k \<in> set ?hits" by simp
  then have "k \<in> set kws" by simp
  with assms(1) have "3 \<le> length k" by blast
  with eq k show ?thesis by simp
qed

text \<open>The loop state is either the start state or a category other than \<open>other\<close> with a score of 3 or more.\<close>

lemma categoryStep_invariant:
  assumes "\<forall>k\<in>set (snd entry). 3 \<le> length k"
    and "(fst best = Other \<and> snd best = 0) \<or> (fst best \<noteq> Other \<and> 3 \<le> snd best)"
  shows "(fst (categoryStep l best entry) = Other \<and> snd (categoryStep l best entry) = 0)
       \<or> (fst (categoryStep l best entry) \<noteq> Other \<and> 3 \<le> snd (categoryStep l best entry))"
proof (cases "fst entry \<noteq> Other \<and> keywordScore l (snd entry) > snd best")
  case True
  then have "0 < keywordScore l (snd entry)" by simp
  from keywordScore_ge3[OF assms(1) this] True show ?thesis
    by (simp add: categoryStep_def Let_def)
next
  case False
  with assms(2) show ?thesis by (auto simp: categoryStep_def Let_def)
qed

lemma foldl_categoryStep_invariant:
  assumes "\<forall>entry\<in>set table. \<forall>k\<in>set (snd entry). 3 \<le> length k"
    and "(fst best = Other \<and> snd best = 0) \<or> (fst best \<noteq> Other \<and> 3 \<le> snd best)"
  shows "(fst (foldl (categoryStep l) best table) = Other \<and> snd (foldl (categoryStep l) best table) = 0)
       \<or> (fst (foldl (categoryStep l) best table) \<noteq> Other \<and> 3 \<le> snd (foldl (categoryStep l) best table))"
  using assms
proof (induction table arbitrary: best)
  case Nil
  then show ?case by simp
next
  case (Cons entry table)
  from Cons.prems(1) have e: "\<forall>k\<in>set (snd entry). 3 \<le> length k" by simp
  from Cons.IH[OF _ categoryStep_invariant[OF e Cons.prems(2)]] Cons.prems(1)
  show ?case by simp
qed

lemma detectCategory_cases:
  "(fst (detectCategory text) = Other \<and> snd (detectCategory text) = 4 / 10)
   \<or> (fst (detectCategory text) \<noteq> Other \<and> 75 / 100 \<le> snd (detectCategory text)
       \<and> snd (detectCategory text) \<le> 95 / 100)"
proof -
  define best where "best = foldl (categoryStep (toLowerCase text)) (Other, 0) CATEGORY_KEYWORDS"
  have inv: "(fst best = Other \<and> snd best = 0) \<or> (fst best \<noteq> Other \<and> 3 \<le> snd best)"
    unfolding best_def
    by (rule foldl_categoryStep_invariant[OF CATEGORY_KEYWORDS_length]) simp
  have d: "detectCategory text =
      (fst best, if snd best > 0 then min (95 / 100) (6 / 10 + of_nat (snd best) * (5 / 100)) else 4 / 10)"
    by (simp add: detectCategory_def Let_def best_def)
  from inv show ?thesis
  proof
    assume "fst best = Other \<and> snd best = 0"
    with d show ?thesis by simp
  next
    assume a: "fst best \<noteq> Other \<and> 3 \<le> snd best"
    then have "(3::rat) \<le> of_nat (snd best)" by (metis of_nat_le_iff of_nat_numeral)
    then have "(75 / 100 :: rat) \<le> 6 / 10 + of_nat (snd best) * (5 / 100)" by simp
    with a d show ?thesis by (auto simp: min_def)
  qed
qed

text \<open>
  Claim C10. Every keyword of the table has three characters or more, so the
  confidence of \<open>detectCategory\<close> is exactly 0.4, with the category \<open>other\<close>, or at least
  0.75, with another category, and never in between; hence an expense of
  \<open>parseExpenses\<close> needs review exactly when its category is \<open>other\<close>.
\<close>

theorem C10_review_iff_other:
  "((fst (detectCategory text) = Other \<and> snd (detectCategory text) = 4 / 10)
     \<or> (fst (detectCategory text) \<noteq> Other \<and> 75 / 100 \<le> snd (detectCategory text)))
   \<and> \<not> (4 / 10 < snd (detectCategory text) \<and> snd (detectCategory text) < 75 / 100)
   \<and> (\<forall>res. parseExpenses input = Some res \<longrightarrow>
         (\<forall>e\<in>set (expenses res). needsReview e \<longleftrightarrow> category e = Other))"
proof -
  have 1: "(fst (detectCategory text) = Other \<and> snd (detectCategory text) = 4 / 10)
     \<or> (fst (detectCategory text) \<noteq> Other \<and> 75 / 100 \<le> snd (detectCategory text))"
    using detectCategory_cases[of "text"] by blast
  then have 2: "\<not> (4 / 10 < snd (detectCategory text) \<and> snd (detectCategory text) < 75 / 100)"
    by auto
  have 3: "\<forall>res. parseExpenses input = Some res \<longrightarrow>
         (\<forall>e\<in>set (expenses res). needsReview e \<longleftrightarrow> category e = Other)"
  proof (intro allI impI ballI)
    fix res e
    assume res: "parseExpenses input = Some res" and e: "e \<in> set (expenses res)"
    from extractAmounts_total[of "trim input"] obtain cands where
      c: "extractAmounts (trim input) = Some cands" by blast
    from parseExpenses_spec[OF c] res e have "list_all2 expenseOf cands (expenses res)"
      by (auto split: if_splits)
    with e obtain c' where "expenseOf c' e"
      by (auto simp: list_all2_conv_all_nth in_set_conv_nth)
    then have ex: "category e = fst (detectCategory (description e))"
      "confidence e = snd (detectCategory (description e))"
      "needsReview e = (confidence e < 7 / 10)"
      by (simp_all add: expenseOf_def)
    from detectCategory_cases[of "description e"] ex
    show "needsReview e \<longleftrightarrow> category e = Other" by auto
  qed
  from 1 2 3 show ?thesis by blast
qed


theorem C10_review_iff_other_witness:
  "detectCategory ''gym'' = (Health, 75 / 100)
   \<and> \<not> (4 / 10 < (75 / 100 :: rat) \<and> (75 / 100 :: rat) < 75 / 100)
   \<and> map_option (map (\<lambda>e. (category e, confidence e, needsReview e)) \<circ> expenses)
         (parseExpenses ''$15 lunch and $40 xyz'')
       = Some [(Food, 17 / 20, False), (Other, 4 / 10, True)]"
proof -
  have a: "detectCategory ''gym'' = (Health, 75 / 100)" by code_simp
  have b: "map_option (map (\<lambda>e. (category e, confidence e, needsReview e)) \<circ> expenses)
         (parseExpenses ''$15 lunch and $40 xyz'')
       = Some [(Food, 17 / 20, False), (Other, 4 / 10, True)]" by code_simp
  from C10_review_iff_other[of "''gym''" "''$15 lunch and $40 xyz''"] a b
  show ?thesis by simp
qed

subsection \<open>The total locator\<close>

lemma extractMoneyValues_positive: "v \<in> set (extractMoneyValues t) \<Longrightarrow> 0 < v"
  by (auto simp: extractMoneyValues_def List.map_filter_def Let_def split: option.splits if_splits)

lemma scanUp_take:
  "n \<le> length xs \<Longrightarrow> scanUp xs n = spec_bottomUp (take n xs)"
proof (induction n)
  case 0
  then show ?case by (simp add: spec_bottomUp_def)
next
  case (Suc n)
  then have t: "take (Suc n) xs = take n xs @ [xs ! n]"
    by (simp add: take_Suc_conv_app_nth)
  show ?case
  proof (cases "extractMoneyValues (xs ! n) = []")
    case True
    with Suc t show ?thesis by (simp add: spec_bottomUp_def Let_def)
  next
    case False
    then have "extractMoneyValues (xs ! n) ! (length (extractMoneyValues (xs ! n)) - 1)
                 = last (extractMoneyValues (xs ! n))"
      by (simp add: last_conv_nth)
    with False t show ?thesis by (simp add: spec_bottomUp_def Let_def)
  qed
qed

lemma scanUp_all: "scanUp xs (length xs) = spec_bottomUp xs"
  using scanUp_take[of "length xs" xs] by simp

lemma find_Some_member: "List.find P xs = Some x \<Longrightarrow> x \<in> set xs \<and> P x"
  by (induction xs) (auto split: if_splits)

lemma spec_bottomUp_in:
  "spec_bottomUp ls = Some a \<Longrightarrow> \<exists>l\<in>set ls. a \<in> set (extractMoneyValues l)"
proof -
  assume "spec_bottomUp ls = Some a"
  then obtain l where l: "List.find (\<lambda>l. extractMoneyValues l \<noteq> []) (rev ls) = Some l"
    "a = last (extractMoneyValues l)"
    by (auto simp: spec_bottomUp_def split: option.splits)
  from find_Some_member[OF l(1)] have "l \<in> set ls" "extractMoneyValues l \<noteq> []"
    by auto
  with l(2) have "a \<in> set (extractMoneyValues l)" by simp
  with \<open>l \<in> set ls\<close> show ?thesis by blast
qed

lemma isTotalLine_spec: "isTotalLine l = spec_isTotalLine l"
  by (auto simp: isTotalLine_def spec_isTotalLine_def Let_def list_ex_iff str_includes_sublist)

lemma map_fst_filter_zip:
  "length xs = length ys \<Longrightarrow> map fst (filter (\<lambda>(l, i). P l) (zip xs ys)) = filter P xs"
  by (induction xs ys rule: list_induct2) auto

lemma sliceLast_rev: "sliceLast n xs = rev (take n (rev xs))"
  by (simp add: sliceLast_def take_rev)

lemma foldl_max_Max: "foldl max (a :: rat) xs = Max (set (a # xs))"
proof (induction xs arbitrary: a)
  case Nil
  then show ?case by simp
next
  case (Cons x xs)
  have "Max (insert (max a x) (set xs)) = Max (insert a (insert x (set xs)))"
    by (cases "set xs = {}") (auto simp: max.assoc)
  with Cons[of "max a x"] show ?case by simp
qed

lemma maxOf_Max:
  "vs \<noteq> [] \<Longrightarrow> maxOf argLimit vs = (if argLimit < length vs then None else Some (Max (set vs)))"
  by (cases vs) (simp_all add: maxOf_def foldl_max_Max del: Max_insert set_simps add: list.set)

text \<open>
  The locator raises exactly when it reaches its last stage with more money values
  than one call accepts; otherwise it returns what the specification describes.
\<close>

lemma findTotalAmount_spec:
  "findTotalAmount argLimit text =
     (if reachesLastStage text \<and> argLimit < length (extractMoneyValues text) then None
      else Some (spec_findTotalAmount text))"
proof -
  let ?lines = "nonEmptyLines text"
  let ?pr = "filter (\<lambda>(line, i). isTotalLine line) (zip ?lines [0..<length ?lines])"
  have pr: "map fst ?pr = filter spec_isTotalLine ?lines"
    using map_fst_filter_zip[of ?lines "[0..<length ?lines]" isTotalLine]
    by (simp add: isTotalLine_spec[abs_def])
  have 1: "scanUp (map fst ?pr) (length ?pr) = spec_bottomUp (filter spec_isTotalLine ?lines)"
  proof -
    have "length ?pr = length (map fst ?pr)" by simp
    then have "scanUp (map fst ?pr) (length ?pr) = spec_bottomUp (map fst ?pr)"
      by (simp only: scanUp_all)
    then show ?thesis by (simp only: pr)
  qed
  have 2: "scanUp (sliceLast 10 ?lines) (length (sliceLast 10 ?lines))
             = spec_bottomUp (rev (take 10 (rev ?lines)))"
    by (simp only: scanUp_all sliceLast_rev)
  show ?thesis
    unfolding findTotalAmount_def spec_findTotalAmount_def reachesLastStage_def Let_def 1 2
    by (auto split: option.splits simp: maxOf_Max)
qed

lemma spec_bottomUp_append_total:
  assumes "extractMoneyValues l \<noteq> []"
    and "\<forall>x\<in>set after. extractMoneyValues x = []"
  shows "spec_bottomUp (before @ [l] @ after) = Some (last (extractMoneyValues l))"
proof -
  have "List.find (\<lambda>l. extractMoneyValues l \<noteq> []) (rev after @ l # rev before) = Some l"
    using assms by (induction after rule: rev_induct) auto
  then show ?thesis by (simp add: spec_bottomUp_def)
qed

lemma total_line_example:
  "spec_isTotalLine ''TOTAL: $23.50'' \<and> extractMoneyValues ''TOTAL: $23.50'' = [2350 / 100]"
  unfolding isTotalLine_spec[symmetric] by code_simp

text \<open>
  Claim C7, as amended. A money value is a money-shaped token whose value is greater
  than 0; these are what \<open>extractMoneyValues\<close> returns. \<open>findTotalAmount\<close> is the total
  locator the specification describes, on money values: the last money value of the
  lowest total line that holds one, with confidence 0.85; else the last money value
  of the lowest of the last ten lines that holds one, with 0.6; else, when the money
  values of the text are no more than one call accepts as arguments, the greatest
  money value of the whole text, with 0.55, or no amount, with 0.4, when there is
  none. In particular, when the line \<open>TOTAL: $23.50\<close> is among the lines and no total
  line below it holds a money value, the result is 23.50 with 0.85.
\<close>

theorem C7_findTotalAmount_refines_spec:
  "(\<not> reachesLastStage text \<or> length (extractMoneyValues text) \<le> argLimit
      \<longrightarrow> findTotalAmount argLimit text = Some (spec_findTotalAmount text))
   \<and> (nonEmptyLines text = before @ [''TOTAL: $23.50''] @ after
        \<and> (\<forall>l\<in>set after. \<not> (spec_isTotalLine l \<and> extractMoneyValues l \<noteq> []))
      \<longrightarrow> findTotalAmount argLimit text = Some (Some (2350 / 100), 85 / 100))"
proof (intro conjI impI)
  assume "\<not> reachesLastStage text \<or> length (extractMoneyValues text) \<le> argLimit"
  then show "findTotalAmount argLimit text = Some (spec_findTotalAmount text)"
    by (auto simp: findTotalAmount_spec)
next
  assume a: "nonEmptyLines text = before @ [''TOTAL: $23.50''] @ after
        \<and> (\<forall>l\<in>set after. \<not> (spec_isTotalLine l \<and> extractMoneyValues l \<noteq> []))"
  from total_line_example have ex: "spec_isTotalLine ''TOTAL: $23.50''"
    "extractMoneyValues ''TOTAL: $23.50'' = [2350 / 100]" by blast+
  from a ex(1) have lines: "filter spec_isTotalLine (nonEmptyLines text)
      = filter spec_isTotalLine before @ [''TOTAL: $23.50''] @ filter spec_isTotalLine after"
    by simp
  from a have none: "\<forall>x\<in>set (filter spec_isTotalLine after). extractMoneyValues x = []" by auto
  from ex(2) have some: "extractMoneyValues ''TOTAL: $23.50'' \<noteq> []" by simp
  from spec_bottomUp_append_total[OF some none, of "filter spec_isTotalLine before"] ex(2)
  have found: "spec_bottomUp (filter spec_isTotalLine (nonEmptyLines text)) = Some (2350 / 100)"
    by (simp add: lines)
  then have "\<not> reachesLastStage text" by (simp add: reachesLastStage_def)
  with found show "findTotalAmount argLimit text = Some (Some (2350 / 100), 85 / 100)"
    by (simp add: findTotalAmount_spec spec_findTotalAmount_def)
qed

theorem C7_findTotalAmount_witness:
  "nonEmptyLines ''Cafe 9\<newline>TOTAL: $23.50\<newline>Cash 30.00'' = [''Cafe 9''] @ [''TOTAL: $23.50''] @ [''Cash 30.00'']
   \<and> list_all (\<lambda>l. \<not> (isTotalLine l \<and> extractMoneyValues l \<noteq> [])) [''Cash 30.00'']
   \<and> findTotalAmount 65535 ''Cafe 9\<newline>TOTAL: $23.50\<newline>Cash 30.00'' = Some (Some (2350 / 100), 85 / 100)
   \<and> extractMoneyValues ''x\<newline>7 8'' = [7, 8]
   \<and> spec_findTotalAmount ''x\<newline>7 8'' = (Some 8, 6 / 10)
   \<and> findTotalAmount 65535 ''x\<newline>7 8'' = Some (Some 8, 6 / 10)
   \<and> reachesLastStage ''9 5\<newline>a\<newline>b\<newline>c\<newline>d\<newline>e\<newline>f\<newline>g\<newline>h\<newline>i\<newline>j''
   \<and> extractMoneyValues ''9 5\<newline>a\<newline>b\<newline>c\<newline>d\<newline>e\<newline>f\<newline>g\<newline>h\<newline>i\<newline>j'' = [9, 5]
   \<and> spec_findTotalAmount ''9 5\<newline>a\<newline>b\<newline>c\<newline>d\<newline>e\<newline>f\<newline>g\<newline>h\<newline>i\<newline>j'' = (Some 9, 55 / 100)
   \<and> findTotalAmount 65535 ''9 5\<newline>a\<newline>b\<newline>c\<newline>d\<newline>e\<newline>f\<newline>g\<newline>h\<newline>i\<newline>j'' = Some (Some 9, 55 / 100)"
proof -
  have a: "nonEmptyLines ''Cafe 9\<newline>TOTAL: $23.50\<newline>Cash 30.00''
             = [''Cafe 9''] @ [''TOTAL: $23.50''] @ [''Cash 30.00'']"
    by code_simp
  have b: "list_all (\<lambda>l. \<not> (isTotalLine l \<and> extractMoneyValues l \<noteq> [])) [''Cash 30.00'']"
    by code_simp
  have c: "extractMoneyValues ''x\<newline>7 8'' = [7, 8]" by code_simp
  have c': "findTotalAmount 65535 ''x\<newline>7 8'' = Some (Some 8, 6 / 10)" by code_simp
  from b have b': "\<forall>l\<in>set [''Cash 30.00'']. \<not> (spec_isTotalLine l \<and> extractMoneyValues l \<noteq> [])"
    by (simp add: isTotalLine_spec)
  from C7_findTotalAmount_refines_spec[of "''Cafe 9\<newline>TOTAL: $23.50\<newline>Cash 30.00''" 65535
      "[''Cafe 9'']" "[''Cash 30.00'']"] a b'
  have d: "findTotalAmount 65535 ''Cafe 9\<newline>TOTAL: $23.50\<newline>Cash 30.00'' = Some (Some (2350 / 100), 85 / 100)"
    by auto
  have "length (extractMoneyValues ''x\<newline>7 8'') \<le> (65535 :: nat)" by (simp add: c)
  with C7_findTotalAmount_refines_spec[of "''x\<newline>7 8''" 65535] c'
  have e: "spec_findTotalAmount ''x\<newline>7 8'' = (Some 8, 6 / 10)"
    by simp
  let ?t = "''9 5\<newline>a\<newline>b\<newline>c\<newline>d\<newline>e\<newline>f\<newline>g\<newline>h\<newline>i\<newline>j''"
  have "findTotalAmount 1 ?t = None" by code_simp
  then have f: "reachesLastStage ?t"
    by (simp add: findTotalAmount_spec split: if_splits)
  have g: "extractMoneyValues ?t = [9, 5]" by code_simp
  have g': "findTotalAmount 65535 ?t = Some (Some 9, 55 / 100)" by code_simp
  have "length (extractMoneyValues ?t) \<le> (65535 :: nat)" by (simp add: g)
  with C7_findTotalAmount_refines_spec[of ?t 65535] g'
  have h: "spec_findTotalAmount ?t = (Some 9, 55 / 100)"
    by simp
  from a b c c' d e f g g' h show ?thesis by blast
qed

text \<open>
  The claim as first stated fails: the total line \<open>TOTAL 0.00\<close> holds the money-shaped
  token \<open>0.00\<close>, and the locator returns no amount, with confidence 0.4, since a token
  of value 0 is not kept.
\<close>

theorem C7_zero_token_counterexample:
  "isTotalLine ''TOTAL 0.00''
   \<and> matchGlobal moneyPattern ''TOTAL 0.00'' = [''0.00'']
   \<and> findTotalAmount 65535 ''TOTAL 0.00'' = Some (None, 4 / 10)"
  by code_simp

lemma findTotalAmount_positive:
  assumes "findTotalAmount argLimit text = Some (Some a, c)"
  shows "0 < a"
proof -
  from assms have "spec_findTotalAmount text = (Some a, c)"
    by (auto simp: findTotalAmount_spec split: if_splits)
  then consider
      "spec_bottomUp (filter spec_isTotalLine (nonEmptyLines text)) = Some a"
    | "spec_bottomUp (rev (take 10 (rev (nonEmptyLines text)))) = Some a"
    | "extractMoneyValues text \<noteq> []" "a = Max (set (extractMoneyValues text))"
    by (auto simp: spec_findTotalAmount_def split: option.splits if_splits)
  then show ?thesis
  proof cases
    case 1
    from spec_bottomUp_in[OF 1] extractMoneyValues_positive show ?thesis by blast
  next
    case 2
    from spec_bottomUp_in[OF 2] extractMoneyValues_positive show ?thesis by blast
  next
    case 3
    from 3(1) have "Max (set (extractMoneyValues text)) \<in> set (extractMoneyValues text)"
      by (intro Max_in) auto
    with 3(2) extractMoneyValues_positive show ?thesis by blast
  qed
qed

text \<open>
  Claim C6, as amended. Every candidate of \<open>extractAmounts\<close> has a value strictly
  between 0 and 100000. Every money value the receipt interpreter extracts, and
  every amount its total locator returns, is strictly positive; it has no upper bound.
\<close>

theorem C6_amount_bounds:
  "(\<exists>cands. extractAmounts text = Some cands
       \<and> (\<forall>c\<in>set cands. 0 < candidate.amount c \<and> candidate.amount c < 100000))
   \<and> (\<forall>v\<in>set (extractMoneyValues text). 0 < v)
   \<and> (\<forall>a c. findTotalAmount argLimit text = Some (Some a, c) \<longrightarrow> 0 < a)"
proof (intro conjI)
  from extractAmounts_total[of "text"]
  show "\<exists>cands. extractAmounts text = Some cands
       \<and> (\<forall>c\<in>set cands. 0 < candidate.amount c \<and> candidate.amount c < 100000)"
    by blast
next
  show "\<forall>v\<in>set (extractMoneyValues text). 0 < v"
    using extractMoneyValues_positive by blast
next
  show "\<forall>a c. findTotalAmount argLimit text = Some (Some a, c) \<longrightarrow> 0 < a"
    using findTotalAmount_positive by blast
qed

theorem C6_amount_bounds_witness:
  "extractAmounts ''$5 250,000.00 USD'' =
      Some [\<lparr>candidate.amount = 5, index = 0, match = ''$5''\<rparr>]
   \<and> extractMoneyValues ''$5 250,000.00 USD'' = [5, 250000]
   \<and> findTotalAmount 65535 ''$5 250,000.00 USD'' = Some (Some 250000, 6 / 10)
   \<and> (0::rat) < 5 \<and> (5::rat) < 100000 \<and> (0::rat) < 250000"
proof -
  have a: "extractAmounts ''$5 250,000.00 USD'' =
      Some [\<lparr>candidate.amount = 5, index = 0, match = ''$5''\<rparr>]" by code_simp
  have b: "extractMoneyValues ''$5 250,000.00 USD'' = [5, 250000]" by code_simp
  have c: "findTotalAmount 65535 ''$5 250,000.00 USD'' = Some (Some 250000, 6 / 10)" by code_simp
  from C6_amount_bounds[of "''$5 250,000.00 USD''" 65535] a b c show ?thesis by simp
qed

text \<open>
  The claim as first stated fails for the total locator: on the line
  \<open>TOTAL 250,000.00\<close> it returns 250000, which is not below 100000.
\<close>

theorem C6_total_counterexample:
  "findTotalAmount 65535 ''TOTAL 250,000.00'' = Some (Some 250000, 85 / 100)
   \<and> extractMoneyValues ''TOTAL 250,000.00'' = [250000]
   \<and> \<not> ((250000 :: rat) < 100000)"
  by code_simp

subsection \<open>The receipt interpreter\<close>

lemma findMerchant_Some: "\<exists>m. findMerchant text = Some m"
proof (cases "merchantCandidates text")
  case Nil
  then show ?thesis by (simp add: findMerchant_def)
next
  case (Cons c cs)
  then have "length (sort_key (\<lambda>w. - int (score w)) (map weigh (merchantCandidates text))) \<noteq> 0"
    by simp
  then obtain w ws where "sort_key (\<lambda>w. - int (score w)) (map weigh (merchantCandidates text)) = w # ws"
    by (cases "sort_key (\<lambda>w. - int (score w)) (map weigh (merchantCandidates text))") auto
  with Cons show ?thesis by (simp add: findMerchant_def Let_def)
qed

lemma monthNameDate_Some: "\<exists>d. monthNameDate n = Some d"
proof (cases "matchFirst monthNamePattern n")
  case None
  then show ?thesis by (simp add: monthNameDate_def)
next
  case (Some m)
  have "binds 1 (source monthNamePattern)" by (simp add: monthNamePattern_def)
  from search_binds[OF Some[unfolded matchFirst_def] this] obtain g where "group m 1 = Some g" by blast
  with Some show ?thesis by (auto simp: monthNameDate_def Let_def split: option.splits)
qed

lemma findReceiptDate_Some: "\<exists>d. findReceiptDate text = Some d"
  using monthNameDate_Some by (auto simp: findReceiptDate_def Let_def split: option.splits)

lemma findTotalAmount_None:
  "findTotalAmount argLimit text = None
     \<longleftrightarrow> reachesLastStage text \<and> argLimit < length (extractMoneyValues text)"
  by (simp add: findTotalAmount_spec)

text \<open>
  The receipt interpreter fails to return only through the total locator; when the
  locator returns, the result is the assembly of what the locators found.
\<close>

lemma parseReceiptText_spec:
  "\<exists>parsed ruleExpense merchant found.
     parseExpenses text = Some parsed
     \<and> (ruleExpense = None \<or> (\<exists>e\<in>set (expenses parsed). ruleExpense = Some e))
     \<and> parseReceiptText argLimit text =
         (case findTotalAmount argLimit text of
            None \<Rightarrow> None
          | Some located \<Rightarrow> Some (text, assemble ruleExpense located merchant found))"
proof -
  from parseExpenses_total obtain parsed where p: "parseExpenses text = Some parsed" by blast
  from findMerchant_Some obtain merchant where m: "findMerchant text = Some merchant" by blast
  from findReceiptDate_Some obtain found where f: "findReceiptDate text = Some found" by blast
  define ruleExpense where
    "ruleExpense = (case expenses parsed of [] \<Rightarrow> None | e # es \<Rightarrow> Some e)"
  have r: "ruleExpense = None \<or> (\<exists>e\<in>set (expenses parsed). ruleExpense = Some e)"
    by (cases "expenses parsed") (simp_all add: ruleExpense_def)
  from p m f have "parseReceiptText argLimit text =
         (case findTotalAmount argLimit text of
            None \<Rightarrow> None
          | Some located \<Rightarrow> Some (text, assemble ruleExpense located merchant found))"
    by (simp add: parseReceiptText_def Let_def ruleExpense_def split: option.splits)
  with p r show ?thesis by blast
qed

text \<open>
  Claim C8 does not hold of the code. The expense the receipt interpreter returns is
  always flagged for review, but the interpreter does not always return: when neither
  the total lines nor the last ten lines hold a money value and the text holds more
  money values than one call accepts as arguments, \<open>Math.max(...allValues)\<close> raises a
  \<open>RangeError\<close>, which nothing catches. This is the only way in which it fails.
\<close>

theorem C8_receipt_raises_beyond_limit:
  "(parseReceiptText argLimit text = None
      \<longleftrightarrow> reachesLastStage text \<and> argLimit < length (extractMoneyValues text))
   \<and> (\<forall>r. parseReceiptText argLimit text = Some r \<longrightarrow> fst r = text \<and> needsReview (snd r))"
proof -
  from parseReceiptText_spec[of "text" argLimit] obtain ruleExpense merchant found where
    p: "parseReceiptText argLimit text =
         (case findTotalAmount argLimit text of
            None \<Rightarrow> None
          | Some located \<Rightarrow> Some (text, assemble ruleExpense located merchant found))"
    by blast
  have "parseReceiptText argLimit text = None \<longleftrightarrow> findTotalAmount argLimit text = None"
    by (simp add: p split: option.splits)
  then have 1: "parseReceiptText argLimit text = None
      \<longleftrightarrow> reachesLastStage text \<and> argLimit < length (extractMoneyValues text)"
    by (simp add: findTotalAmount_None)
  have flag: "needsReview (assemble r l m f)" for r l m f
    by (simp add: assemble_def Let_def)
  have 2: "\<forall>r. parseReceiptText argLimit text = Some r \<longrightarrow> fst r = text \<and> needsReview (snd r)"
    using flag by (auto simp: p split: option.splits)
  from 1 2 show ?thesis by blast
qed

theorem C8_receipt_raises_witness:
  "extractMoneyValues ''1 2 3\<newline>a\<newline>b\<newline>c\<newline>d\<newline>e\<newline>f\<newline>g\<newline>h\<newline>i\<newline>j'' = [1, 2, 3]
   \<and> parseReceiptText 2 ''1 2 3\<newline>a\<newline>b\<newline>c\<newline>d\<newline>e\<newline>f\<newline>g\<newline>h\<newline>i\<newline>j'' = None
   \<and> reachesLastStage ''1 2 3\<newline>a\<newline>b\<newline>c\<newline>d\<newline>e\<newline>f\<newline>g\<newline>h\<newline>i\<newline>j''
   \<and> map_option (\<lambda>r. (fst r, needsReview (snd r), confidence (snd r))) (parseReceiptText 65535 ''Walmart'')
       = Some (''Walmart'', True, 9 / 10)"
proof -
  let ?t = "''1 2 3\<newline>a\<newline>b\<newline>c\<newline>d\<newline>e\<newline>f\<newline>g\<newline>h\<newline>i\<newline>j''"
  have a: "extractMoneyValues ?t = [1, 2, 3]" by code_simp
  have b: "parseReceiptText 2 ?t = None" by code_simp
  from C8_receipt_raises_beyond_limit[of 2 ?t] b have c: "reachesLastStage ?t" by simp
  have d: "map_option (\<lambda>r. confidence (snd r)) (parseReceiptText 65535 ''Walmart'') = Some (9 / 10)"
    by code_simp
  from C8_receipt_raises_beyond_limit[of 65535 "''Walmart''"] d
  have e: "map_option (\<lambda>r. (fst r, needsReview (snd r), confidence (snd r)))
             (parseReceiptText 65535 ''Walmart'') = Some (''Walmart'', True, 9 / 10)"
    by auto
  from a b c e show ?thesis by blast
qed

lemma detectCategory_range:
  "4 / 10 \<le> snd (detectCategory t) \<and> snd (detectCategory t) \<le> 95 / 100"
  using detectCategory_cases[of t] by auto

lemma pickCategoryFromMerchant_range:
  "4 / 10 \<le> snd (pickCategoryFromMerchant m) \<and> snd (pickCategoryFromMerchant m) \<le> 95 / 100"
proof (cases m)
  case None
  then show ?thesis by (simp add: pickCategoryFromMerchant_def)
next
  case (Some s)
  define best where "best = foldl (hintStep (toLowerCase s)) (Other, 0) MERCHANT_CATEGORY_HINTS"
  define c :: rat where "c = min (9 / 10) (6 / 10 + of_nat (snd best) * (5 / 100))"
  have c: "4 / 10 \<le> c \<and> c \<le> 95 / 100" by (simp add: c_def min_def)
  have "pickCategoryFromMerchant m =
      (if s = [] then (Other, 4 / 10)
       else if fst best \<noteq> Other then (fst best, c) else detectCategory s)"
    using Some by (simp add: pickCategoryFromMerchant_def Let_def best_def c_def)
  with c detectCategory_range[of s] show ?thesis by auto
qed

lemma findTotalAmount_confidence:
  "findTotalAmount argLimit t = Some located
     \<Longrightarrow> snd located \<in> {85 / 100, 6 / 10, 55 / 100, 4 / 10}"
  by (auto simp: findTotalAmount_def Let_def split: option.splits if_splits)

lemma assemble_confidence:
  assumes "r = None \<or> (\<exists>e. r = Some e \<and> 4 / 10 \<le> confidence e \<and> confidence e \<le> 95 / 100)"
    and "4 / 10 \<le> snd located \<and> snd located \<le> 95 / 100"
  shows "4 / 10 \<le> confidence (assemble r located m f)
       \<and> confidence (assemble r located m f) \<le> 95 / 100"
  using assms pickCategoryFromMerchant_range[of m] by (auto simp: assemble_def Let_def)

lemma parseExpenses_confidence:
  assumes "parseExpenses input = Some res" "e \<in> set (expenses res)"
  shows "4 / 10 \<le> confidence e \<and> confidence e \<le> 95 / 100 \<and> (needsReview e \<longleftrightarrow> confidence e < 7 / 10)"
proof -
  from extractAmounts_total[of "trim input"] obtain cands where
    c: "extractAmounts (trim input) = Some cands" by blast
  from parseExpenses_spec[OF c] assms have "list_all2 expenseOf cands (expenses res)"
    by (auto split: if_splits)
  with assms(2) obtain c' where "expenseOf c' e"
    by (auto simp: list_all2_conv_all_nth in_set_conv_nth)
  with detectCategory_range[of "description e"] show ?thesis by (simp add: expenseOf_def)
qed

text \<open>
  Claim C5, as amended. Every expense of \<open>parseExpenses\<close> has a confidence within
  \<open>[0,1]\<close> and needs review exactly when the confidence is below 0.7. Every expense the
  receipt interpreter returns has a confidence within \<open>[0,1]\<close> and needs review,
  whatever the confidence.
\<close>

theorem C5_confidence_and_review:
  "(\<exists>res. parseExpenses input = Some res
      \<and> (\<forall>e\<in>set (expenses res).
            0 \<le> confidence e \<and> confidence e \<le> 1 \<and> (needsReview e \<longleftrightarrow> confidence e < 7 / 10)))
   \<and> (\<forall>e. parseReceiptText argLimit text = Some (text, e)
          \<longrightarrow> 0 \<le> confidence e \<and> confidence e \<le> 1 \<and> needsReview e)"
proof
  from parseExpenses_total obtain res where res: "parseExpenses input = Some res" by blast
  have "0 \<le> confidence e \<and> confidence e \<le> 1 \<and> (needsReview e \<longleftrightarrow> confidence e < 7 / 10)"
    if "e \<in> set (expenses res)" for e
    using parseExpenses_confidence[OF res that] by auto
  with res show "\<exists>res. parseExpenses input = Some res
      \<and> (\<forall>e\<in>set (expenses res).
            0 \<le> confidence e \<and> confidence e \<le> 1 \<and> (needsReview e \<longleftrightarrow> confidence e < 7 / 10))"
    by blast
next
  show "\<forall>e. parseReceiptText argLimit text = Some (text, e)
          \<longrightarrow> 0 \<le> confidence e \<and> confidence e \<le> 1 \<and> needsReview e"
  proof (intro allI impI)
    fix e
    assume ret: "parseReceiptText argLimit text = Some (text, e)"
    from parseReceiptText_spec[of "text" argLimit] obtain parsed ruleExpense merchant found where
      p: "parseExpenses text = Some parsed"
         "ruleExpense = None \<or> (\<exists>e\<in>set (expenses parsed). ruleExpense = Some e)"
         "parseReceiptText argLimit text =
           (case findTotalAmount argLimit text of
              None \<Rightarrow> None
            | Some located \<Rightarrow> Some (text, assemble ruleExpense located merchant found))"
      by blast
    from ret p(3) obtain located where
      l: "findTotalAmount argLimit text = Some located"
         "e = assemble ruleExpense located merchant found"
      by (auto split: option.splits)
    from findTotalAmount_confidence[OF l(1)]
    have lc: "4 / 10 \<le> snd located \<and> snd located \<le> 95 / 100" by auto
    from p(2) parseExpenses_confidence[OF p(1)]
    have "ruleExpense = None
          \<or> (\<exists>e. ruleExpense = Some e \<and> 4 / 10 \<le> confidence e \<and> confidence e \<le> 95 / 100)"
      by blast
    from assemble_confidence[OF this lc, of merchant found] l(2)
    have "0 \<le> confidence e \<and> confidence e \<le> 1" by auto
    moreover from l(2) have "needsReview e" by (simp add: assemble_def Let_def)
    ultimately show "0 \<le> confidence e \<and> confidence e \<le> 1 \<and> needsReview e" by blast
  qed
qed

theorem C5_confidence_and_review_witness:
  "map_option (map (\<lambda>e. (confidence e, needsReview e)) \<circ> expenses) (parseExpenses ''$4 xyz, $3 bus'')
     = Some [(4 / 10, True), (75 / 100, False)]
   \<and> parseReceiptText 65535 ''Cafe'' =
       Some (''Cafe'', \<lparr>amount = 0, description = ''Cafe'', category = Food,
               confidence = 8 / 10, needsReview = True, date = CurrentTime\<rparr>)"
proof -
  have a: "map_option (map (\<lambda>e. (confidence e, needsReview e)) \<circ> expenses) (parseExpenses ''$4 xyz, $3 bus'')
     = Some [(4 / 10, True), (75 / 100, False)]" by code_simp
  have b: "parseReceiptText 65535 ''Cafe'' =
       Some (''Cafe'', \<lparr>amount = 0, description = ''Cafe'', category = Food,
               confidence = 8 / 10, needsReview = True, date = CurrentTime\<rparr>)"
    by code_simp
  from C5_confidence_and_review[of "''$4 xyz, $3 bus''" 65535 "''Cafe''"] a b show ?thesis by auto
qed

text \<open>
  The claim as first stated fails for the receipt interpreter: the receipt text
  \<open>Target\<close> gives the confidence 0.9, which is not below 0.7, and the flag is set.
\<close>

theorem C5_receipt_counterexample:
  "parseReceiptText 65535 ''Target'' =
     Some (''Target'', \<lparr>amount = 0, description = ''Target'', category = Shopping,
             confidence = 9 / 10, needsReview = True, date = CurrentTime\<rparr>)
   \<and> \<not> ((9 / 10 :: rat) < 7 / 10)"
  by code_simp

subsection \<open>The date locator\<close>

text \<open>
  Claim C9 does not hold of the code. The month-first branch reads the first component
  as the month and the second as the day, and exchanges them when the second exceeds
  12 and the first does not: \<open>03/25/2024\<close> becomes month 25, day 3, and \<open>25/03/2024\<close>,
  where the first component exceeds 12 and the second does not, is left as month 25,
  day 3. Both give \<open>new Date(2024, 24, 3)\<close>.
\<close>

theorem C9_date_swap_evaluated:
  "swapDayMonth (3, 25) = (25, 3)
   \<and> swapDayMonth (25, 3) = (25, 3)
   \<and> findReceiptDate ''03/25/2024'' = Some (Some (DateOf 2024 24 3))
   \<and> findReceiptDate ''25/03/2024'' = Some (Some (DateOf 2024 24 3))"
  by code_simp

end
